theory Spec2Isabelle
  imports Complex_Main
begin

section \<open>The market-making strategy of \<^verbatim>\<open>strategy.py\<close>\<close>

text \<open>
  A shallow embedding of class \<^verbatim>\<open>Strategy\<close>: its constructor, \<^verbatim>\<open>run\<close>,
  \<^verbatim>\<open>place_order\<close> and \<^verbatim>\<open>next_order_id\<close>.

  Conventions.
  \<^item> Python's unbounded \<^verbatim>\<open>int\<close> (timestamps in nanoseconds, order ids) is \<open>int\<close>.
  \<^item> A finite value of Python's \<^verbatim>\<open>float\<close> (prices, sizes, position) is a \<open>real\<close>;
    comparison and unary minus are exact. The float operations \<^verbatim>\<open>+\<close>, \<^verbatim>\<open>-\<close> and
    \<^verbatim>\<open>*\<close> of lines 98 and 100 round their results: they are a parameter \<open>fl\<close> of the
    model, of which nothing is assumed. The literal \<^verbatim>\<open>0.001\<close> is \<open>1 / 1000\<close>.
  \<^item> \<^verbatim>\<open>Optional[T]\<close> is \<open>T option\<close>.
  \<^item> An \<^verbatim>\<open>OrderedDict\<close> is an association list in insertion order, oldest entry first.
  \<^item> An uncaught Python exception ends \<^verbatim>\<open>run\<close>; the model returns \<open>Inl\<close> of the error.
  \<^item> The simulator \<^verbatim>\<open>sim\<close> is external. What \<^verbatim>\<open>sim.tick()\<close> returns is the input
    list of \<open>run\<close>; the calls \<^verbatim>\<open>sim.place_order\<close> and \<^verbatim>\<open>sim.cancel_order\<close> are
    recorded, in order, in the field \<open>sim\<close>.
  \<^item> The value \<^verbatim>\<open>random.choice\<close> picks is an input too: every tick carries the draw of
    the random generator that is consulted if the iteration reaches \<^verbatim>\<open>random.choice\<close>.
  \<^item> Writing the log file is not modelled.
\<close>

subsection \<open>Data delivered by and sent to the simulator\<close>

text \<open>
  Modelled from the spec: the classes \<^verbatim>\<open>Order\<close>, \<^verbatim>\<open>OrderCancel\<close>, \<^verbatim>\<open>ActionResponse\<close>,
  \<^verbatim>\<open>OwnTrade\<close>, \<^verbatim>\<open>MdUpdate\<close> and its payloads, and the enumeration
  \<^verbatim>\<open>ResponseCode\<close> are declared in module \<^verbatim>\<open>simulator\<close>, which is absent. The
  records follow the data model of the spec (section 3) and list, under the names that
  \<^verbatim>\<open>strategy.py\<close> uses, the attributes that it reads or sets.
\<close>

text \<open>
  Modelled from the spec: an order, with the five attributes that lines 67-72 pass to
  the constructor. Line 104 reads \<^verbatim>\<open>receive_ts\<close> of the action inside a response; the
  constructor call does not set it, so it is optional and absent on the orders that the
  strategy builds.
\<close>

record Order =
  client_ts :: int
  client_order_id :: int
  side :: string
  size :: real
  price :: real
  receive_ts :: "int option"

text \<open>
  Modelled from the spec: a cancel request. Line 121 passes the current time as first
  positional argument, named \<open>client_ts\<close> here as in \<^verbatim>\<open>Order\<close>, and the id of the
  order.
\<close>

record OrderCancel =
  client_ts :: int
  client_order_id :: int
  receive_ts :: "int option"

text \<open>What a response acknowledges, and what is handed to the simulator.\<close>

datatype Action = OrderAction Order | OrderCancelAction OrderCancel

text \<open>
  Modelled from the spec: the enumeration \<^verbatim>\<open>ResponseCode\<close>; the spec lists the codes
  OK, Rejected and NotFound, and the strategy only compares a code with
  \<^verbatim>\<open>ResponseCode.OK\<close>.
\<close>

datatype ResponseCode = OK | REJECTED | NOT_FOUND

text \<open>
  Modelled from the spec: the acknowledgment of an action. The strategy reads the action
  and the code; it does not read the response's own \<open>receive_ts\<close>.
\<close>

record ActionResponse =
  receive_ts :: int
  action :: Action
  code :: ResponseCode

text \<open>Modelled from the spec: a fill of one of the strategy's own orders.\<close>

record OwnTrade =
  receive_ts :: int
  client_order_id :: int
  side :: string
  size :: real
  price :: real

text \<open>
  Modelled from the spec: an order-book snapshot; each side lists \<open>(price, size)\<close>
  levels, best first.
\<close>

record OrderbookSnapshotUpdate =
  receive_ts :: int
  bids :: "(real \<times> real) list"
  asks :: "(real \<times> real) list"

text \<open>Modelled from the spec: a public trade; the strategy reads its timestamp only.\<close>

record AnonTrade =
  receive_ts :: int

text \<open>
  Modelled from the spec: a market-data update. Lines 63-88 test the order book first,
  then the trade, and fall back on the timestamp of the update itself.
\<close>

record MdUpdate =
  receive_ts :: int
  orderbook :: "OrderbookSnapshotUpdate option"
  trade :: "AnonTrade option"

text \<open>What \<^verbatim>\<open>sim.tick()\<close> returns before the final \<^verbatim>\<open>None\<close>; \<^verbatim>\<open>run\<close> dispatches on the type.\<close>

datatype Update = MdUpdateU MdUpdate | OwnTradeU OwnTrade | ActionResponseU ActionResponse

datatype error = IndexError | KeyError | TypeError

subsection \<open>Float arithmetic\<close>

text \<open>
  The operations \<^verbatim>\<open>x + y\<close>, \<^verbatim>\<open>x - y\<close> and \<^verbatim>\<open>x * y\<close> on Python floats, as the
  platform computes them. Every function that performs float arithmetic takes them as
  its first argument.
\<close>

record float_arith =
  fadd :: "real \<Rightarrow> real \<Rightarrow> real"
  fsub :: "real \<Rightarrow> real \<Rightarrow> real"
  fmul :: "real \<Rightarrow> real \<Rightarrow> real"

subsection \<open>The insertion-ordered dictionary\<close>

type_synonym 'v ordered_dict = "(int \<times> 'v) list"

text \<open>\<^verbatim>\<open>d[k] = v\<close>: an existing key keeps its position, a new key goes to the end.\<close>

fun od_setitem :: "int \<Rightarrow> 'v \<Rightarrow> 'v ordered_dict \<Rightarrow> 'v ordered_dict" where
  "od_setitem k v [] = [(k, v)]"
| "od_setitem k v ((k', v') # d) =
     (if k' = k then (k, v) # d else (k', v') # od_setitem k v d)"

text \<open>\<^verbatim>\<open>k in d\<close>.\<close>

definition od_contains :: "int \<Rightarrow> 'v ordered_dict \<Rightarrow> bool" where
  "od_contains k d = (k \<in> set (map fst d))"

text \<open>\<^verbatim>\<open>d.pop(k)\<close>: the value and the dictionary without the entry; \<^verbatim>\<open>KeyError\<close> when absent.\<close>

fun od_pop :: "int \<Rightarrow> 'v ordered_dict \<Rightarrow> error + ('v \<times> 'v ordered_dict)" where
  "od_pop k [] = Inl KeyError"
| "od_pop k ((k', v') # d) =
     (if k' = k then Inr (v', d)
      else (case od_pop k d of
              Inl e \<Rightarrow> Inl e
            | Inr (v, d') \<Rightarrow> Inr (v, (k', v') # d')))"

subsection \<open>The strategy object\<close>

record Strategy =
  sim :: "Action list"
  max_position :: real
  order_lifetime :: int
  current_time :: "int option"
  orderbook :: "OrderbookSnapshotUpdate option"
  client_order_id :: int
  active_orders :: "Order ordered_dict"
  pending_orders :: "Order ordered_dict"
  position_size_quote :: real

text \<open>\<^verbatim>\<open>Strategy.__init__\<close> (lines 15-49).\<close>

definition init :: "real \<Rightarrow> int \<Rightarrow> Strategy" where
  "init max_pos lifetime =
     \<lparr>sim = [], max_position = max_pos, order_lifetime = lifetime,
      current_time = None, orderbook = None, client_order_id = 1,
      active_orders = [], pending_orders = [], position_size_quote = 0\<rparr>"

text \<open>\<^verbatim>\<open>Strategy.next_order_id\<close> (lines 128-133): the returned id and the updated object.\<close>

definition next_order_id :: "Strategy \<Rightarrow> int \<times> Strategy" where
  "next_order_id s =
     (let cur_id = Strategy.client_order_id s
      in (cur_id, s\<lparr>Strategy.client_order_id := Strategy.client_order_id s + 1\<rparr>))"

text \<open>\<^verbatim>\<open>Strategy.place_order\<close> (lines 124-126).\<close>

definition place_order :: "Strategy \<Rightarrow> Order \<Rightarrow> Strategy" where
  "place_order s order =
     s\<lparr>active_orders := od_setitem (Order.client_order_id order) order (active_orders s),
       sim := sim s @ [OrderAction order]\<rparr>"

subsection \<open>One iteration of \<^verbatim>\<open>run\<close>\<close>

text \<open>\<^verbatim>\<open>levels[0][0]\<close>: the price of the best level, \<^verbatim>\<open>IndexError\<close> on an empty side.\<close>

definition best_price :: "(real \<times> real) list \<Rightarrow> error + real" where
  "best_price levels = (case levels of [] \<Rightarrow> Inl IndexError | (p, q) # _ \<Rightarrow> Inr p)"

text \<open>
  \<^verbatim>\<open>random.choice(seq)\<close> returns one element of a non-empty sequence; \<open>draw\<close> is what
  the generator produces, reduced to an index of the sequence.
\<close>

definition random_choice :: "nat \<Rightarrow> 'a list \<Rightarrow> 'a" where
  "random_choice draw seq = seq ! (draw mod length seq)"

text \<open>
  Lines 64-83, the branch for an update that carries an order book. The keyword
  arguments of \<^verbatim>\<open>Order(...)\<close> are evaluated left to right, so each id is taken before
  the book side is indexed.
\<close>

definition on_orderbook :: "nat \<Rightarrow> Strategy \<Rightarrow> OrderbookSnapshotUpdate \<Rightarrow> error + Strategy" where
  "on_orderbook draw s ob =
     (let s1 = s\<lparr>orderbook := Some ob,
                 current_time := Some (OrderbookSnapshotUpdate.receive_ts ob)\<rparr>;
          now = OrderbookSnapshotUpdate.receive_ts ob;
          (bid_id, s2) = next_order_id s1
      in case best_price (bids ob) of
           Inl e \<Rightarrow> Inl e
         | Inr bid_price \<Rightarrow>
             (let order_best_bid =
                    \<lparr>Order.client_ts = now + 20, client_order_id = bid_id, side = ''BID'',
                     size = 1 / 1000, price = bid_price, receive_ts = None\<rparr>;
                  (ask_id, s3) = next_order_id s2
              in case best_price (asks ob) of
                   Inl e \<Rightarrow> Inl e
                 | Inr ask_price \<Rightarrow>
                     (let order_best_ask =
                            \<lparr>Order.client_ts = now + 20, client_order_id = ask_id, side = ''ASK'',
                             size = 1 / 1000, price = ask_price, receive_ts = None\<rparr>
                      in Inr (if position_size_quote s3 < - max_position s3
                                then place_order s3 order_best_bid
                              else if position_size_quote s3 > max_position s3
                                then place_order s3 order_best_ask
                              else if random_choice draw [''BID'', ''ASK''] = ''BID''
                                then place_order s3 order_best_bid
                              else place_order s3 order_best_ask))))"

text \<open>Lines 63-88, the three branches of an \<^verbatim>\<open>MdUpdate\<close>, before the test of line 89.\<close>

definition on_md_update :: "nat \<Rightarrow> Strategy \<Rightarrow> MdUpdate \<Rightarrow> error + Strategy" where
  "on_md_update draw s md =
     (case MdUpdate.orderbook md of
        Some ob \<Rightarrow> on_orderbook draw s ob
      | None \<Rightarrow>
          (case trade md of
             Some tr \<Rightarrow> Inr (s\<lparr>current_time := Some (AnonTrade.receive_ts tr)\<rparr>)
           | None \<Rightarrow> Inr (s\<lparr>current_time := Some (MdUpdate.receive_ts md)\<rparr>)))"

text \<open>Lines 93-100.\<close>

definition on_own_trade :: "float_arith \<Rightarrow> Strategy \<Rightarrow> OwnTrade \<Rightarrow> error + Strategy" where
  "on_own_trade fl s own_trade =
     (let s1 = s\<lparr>current_time := Some (OwnTrade.receive_ts own_trade)\<rparr>
      in case (if od_contains (OwnTrade.client_order_id own_trade) (active_orders s1)
               then (case od_pop (OwnTrade.client_order_id own_trade) (active_orders s1) of
                       Inl e \<Rightarrow> Inl e
                     | Inr (order, d) \<Rightarrow> Inr (s1\<lparr>active_orders := d\<rparr>))
               else Inr s1) of
           Inl e \<Rightarrow> Inl e
         | Inr s2 \<Rightarrow>
             Inr (if OwnTrade.side own_trade = ''BID''
                  then s2\<lparr>position_size_quote :=
                            fadd fl (position_size_quote s2)
                              (fmul fl (OwnTrade.size own_trade) (OwnTrade.price own_trade))\<rparr>
                  else s2\<lparr>position_size_quote :=
                            fsub fl (position_size_quote s2)
                              (fmul fl (OwnTrade.size own_trade) (OwnTrade.price own_trade))\<rparr>))"

text \<open>\<^verbatim>\<open>response.action.receive_ts\<close>.\<close>

definition action_receive_ts :: "Action \<Rightarrow> int option" where
  "action_receive_ts a =
     (case a of OrderAction order \<Rightarrow> Order.receive_ts order
              | OrderCancelAction cancel \<Rightarrow> OrderCancel.receive_ts cancel)"

text \<open>Lines 103-110.\<close>

definition on_action_response :: "Strategy \<Rightarrow> ActionResponse \<Rightarrow> Strategy" where
  "on_action_response s response =
     (let s1 = s\<lparr>current_time := action_receive_ts (action response)\<rparr>
      in case action response of
           OrderAction order \<Rightarrow>
             (if code response = OK
              then s1\<lparr>active_orders :=
                        od_setitem (Order.client_order_id order) order (active_orders s1)\<rparr>
              else s1)
         | OrderCancelAction cancel \<Rightarrow> s1)"

text \<open>
  Lines 113-118, the first loop of the sweep: the keys of the orders older than the
  lifetime, up to the first order that is not.
\<close>

fun collect_to_cancel :: "int \<Rightarrow> int \<Rightarrow> Order ordered_dict \<Rightarrow> int list" where
  "collect_to_cancel now lifetime [] = []"
| "collect_to_cancel now lifetime ((key, order) # rest) =
     (if now - Order.client_ts order > lifetime
      then key # collect_to_cancel now lifetime rest
      else [])"

text \<open>Lines 119-122, the second loop: pop each key and send the cancel request.\<close>

fun cancel_keys :: "int \<Rightarrow> Strategy \<Rightarrow> int list \<Rightarrow> error + Strategy" where
  "cancel_keys now s [] = Inr s"
| "cancel_keys now s (key # keys) =
     (case od_pop key (active_orders s) of
        Inl e \<Rightarrow> Inl e
      | Inr (order, d) \<Rightarrow>
          cancel_keys now
            (s\<lparr>active_orders := d,
               sim := sim s @ [OrderCancelAction
                                 \<lparr>OrderCancel.client_ts = now,
                                  client_order_id = Order.client_order_id order,
                                  receive_ts = None\<rparr>]\<rparr>)
            keys)"

text \<open>
  Lines 112-122. With \<^verbatim>\<open>current_time\<close> still \<^verbatim>\<open>None\<close> the subtraction of line 115
  raises \<^verbatim>\<open>TypeError\<close> at the first order; over an empty dictionary the loop body
  never runs.
\<close>

definition cancel_old_orders :: "Strategy \<Rightarrow> error + Strategy" where
  "cancel_old_orders s =
     (case current_time s of
        None \<Rightarrow> (if active_orders s = [] then Inr s else Inl TypeError)
      | Some now \<Rightarrow>
          cancel_keys now s (collect_to_cancel now (order_lifetime s) (active_orders s)))"

text \<open>
  The body of the \<^verbatim>\<open>while\<close> loop for an update that is not \<^verbatim>\<open>None\<close> (lines 62-122).
  The \<^verbatim>\<open>continue\<close> of line 90 skips the sweep while no order book has been seen.
\<close>

definition step :: "float_arith \<Rightarrow> nat \<Rightarrow> Strategy \<Rightarrow> Update \<Rightarrow> error + Strategy" where
  "step fl draw s update =
     (case update of
        MdUpdateU md \<Rightarrow>
          (case on_md_update draw s md of
             Inl e \<Rightarrow> Inl e
           | Inr s1 \<Rightarrow>
               (if Strategy.orderbook s1 = None then Inr s1 else cancel_old_orders s1))
      | OwnTradeU own_trade \<Rightarrow>
          (case on_own_trade fl s own_trade of
             Inl e \<Rightarrow> Inl e
           | Inr s1 \<Rightarrow> cancel_old_orders s1)
      | ActionResponseU response \<Rightarrow> cancel_old_orders (on_action_response s response))"

text \<open>
  \<^verbatim>\<open>Strategy.run\<close> (lines 51-122) over the updates that \<^verbatim>\<open>sim.tick()\<close> returns before
  \<^verbatim>\<open>None\<close>, each with the draw of that iteration.
\<close>

fun run :: "float_arith \<Rightarrow> Strategy \<Rightarrow> (Update \<times> nat) list \<Rightarrow> error + Strategy" where
  "run fl s [] = Inr s"
| "run fl s ((update, draw) # rest) =
     (case step fl draw s update of
        Inl e \<Rightarrow> Inl e
      | Inr s' \<Rightarrow> run fl s' rest)"

subsection \<open>Successive calls of the id generator\<close>

text \<open>The ids returned by \<open>n\<close> successive calls of \<^verbatim>\<open>next_order_id\<close>, and the object after them.\<close>

fun next_order_ids :: "nat \<Rightarrow> Strategy \<Rightarrow> int list \<times> Strategy" where
  "next_order_ids 0 s = ([], s)"
| "next_order_ids (Suc n) s =
     (let (cur_id, s1) = next_order_id s;
          (ids, s2) = next_order_ids n s1
      in (cur_id # ids, s2))"

section \<open>Notions used to state the properties\<close>

text \<open>An order is expired at time \<open>now\<close> when the test of line 115 holds for it.\<close>

definition expired :: "int \<Rightarrow> int \<Rightarrow> int \<times> Order \<Rightarrow> bool" where
  "expired now lifetime entry = (now - Order.client_ts (snd entry) > lifetime)"

text \<open>The cancel request that line 121 builds for a dictionary entry.\<close>

definition cancel_request :: "int \<Rightarrow> int \<times> Order \<Rightarrow> Action" where
  "cancel_request now entry =
     OrderCancelAction \<lparr>OrderCancel.client_ts = now,
                        client_order_id = Order.client_order_id (snd entry),
                        receive_ts = None\<rparr>"

text \<open>The candidate order that lines 67-72 build for a side, an id and a price.\<close>

definition candidate :: "string \<Rightarrow> int \<Rightarrow> int \<Rightarrow> real \<Rightarrow> Order" where
  "candidate sd now oid p =
     \<lparr>Order.client_ts = now + 20, client_order_id = oid, side = sd,
      size = 1 / 1000, price = p, receive_ts = None\<rparr>"

text \<open>The side that lines 74-83 quote.\<close>

definition quoted_side :: "nat \<Rightarrow> Strategy \<Rightarrow> string" where
  "quoted_side draw s =
     (if position_size_quote s < - max_position s then ''BID''
      else if position_size_quote s > max_position s then ''ASK''
      else random_choice draw [''BID'', ''ASK''])"

text \<open>The orders handed to \<^verbatim>\<open>sim.place_order\<close>, oldest first.\<close>

fun placed_orders :: "Action list \<Rightarrow> Order list" where
  "placed_orders [] = []"
| "placed_orders (OrderAction order # acts) = order # placed_orders acts"
| "placed_orders (OrderCancelAction cancel # acts) = placed_orders acts"

text \<open>The dictionary iterates in non-decreasing creation time.\<close>

definition creation_ordered :: "Order ordered_dict \<Rightarrow> bool" where
  "creation_ordered d = sorted (map (\<lambda>entry. Order.client_ts (snd entry)) d)"

text \<open>
  The sweep as the specification words it, without the early stop: the id of every
  outstanding order whose age \<open>now - creation_time\<close> exceeds \<open>max_age\<close>.
\<close>

definition sweep_full_scan :: "int \<Rightarrow> int \<Rightarrow> Order ordered_dict \<Rightarrow> int list" where
  "sweep_full_scan now max_age d =
     map fst (filter (\<lambda>entry. now - Order.client_ts (snd entry) > max_age) d)"

text \<open>A ledger of three orders created at times 0, 50 and 200.\<close>

definition ledger3 :: "Order ordered_dict" where
  "ledger3 =
     [(1, candidate ''BID'' (-20) 1 100),
      (2, candidate ''ASK'' 30 2 101),
      (4, candidate ''ASK'' 180 4 102)]"

text \<open>
  Lines 97-100 as a function of the position: the position after a fill, computed with
  the float operations \<open>fl\<close>.
\<close>

definition apply_fill :: "float_arith \<Rightarrow> real \<Rightarrow> OwnTrade \<Rightarrow> real" where
  "apply_fill fl position own_trade =
     (if OwnTrade.side own_trade = ''BID''
      then fadd fl position (fmul fl (OwnTrade.size own_trade) (OwnTrade.price own_trade))
      else fsub fl position (fmul fl (OwnTrade.size own_trade) (OwnTrade.price own_trade)))"

text \<open>Arithmetic that does not round.\<close>

definition exact_arith :: float_arith where
  "exact_arith = \<lparr>fadd = (+), fsub = (-), fmul = (*)\<rparr>"

text \<open>
  Binary64 arithmetic as Python has it, for results up to the largest float (beyond it
  Python yields \<^verbatim>\<open>inf\<close>, which is not a real): the exact result is rounded to the
  nearest float, and to the one with an even significand at a tie. A float has 53
  significant bits, and fewer below \<open>2 ^ (- 1022)\<close>, where the spacing stays
  \<open>2 ^ (- 1074)\<close>. \<open>binary_exponent x\<close> is the \<open>e\<close> with \<open>2 ^ e \<le> x < 2 ^ (e + 1)\<close>,
  for \<open>x > 0\<close>, cut off at 1024 and at \<open>- 1024\<close>.
\<close>

fun exp_up :: "nat \<Rightarrow> real \<Rightarrow> int" where
  "exp_up 0 x = 0"
| "exp_up (Suc n) x = (if x < 2 then 0 else exp_up n (x / 2) + 1)"

fun exp_down :: "nat \<Rightarrow> real \<Rightarrow> int" where
  "exp_down 0 x = 0"
| "exp_down (Suc n) x = (if 1 \<le> x then 0 else exp_down n (2 * x) - 1)"

definition binary_exponent :: "real \<Rightarrow> int" where
  "binary_exponent x = (if 1 \<le> x then exp_up 1024 x else exp_down 1024 x)"

definition two_pow :: "int \<Rightarrow> real" where
  "two_pow e = (if 0 \<le> e then 2 ^ nat e else 1 / 2 ^ nat (- e))"

definition round_half_even :: "real \<Rightarrow> int" where
  "round_half_even q =
     (let f = \<lfloor>q\<rfloor>; d = q - of_int f
      in if d < 1 / 2 then f
         else if 1 / 2 < d then f + 1
         else if even f then f else f + 1)"

definition round53 :: "real \<Rightarrow> real" where
  "round53 x =
     (if x = 0 then 0
      else (let u = two_pow (max (binary_exponent \<bar>x\<bar>) (- 1022) - 52)
            in of_int (round_half_even (x / u)) * u))"

definition double_arith :: float_arith where
  "double_arith =
     \<lparr>fadd = (\<lambda>x y. round53 (x + y)),
      fsub = (\<lambda>x y. round53 (x - y)),
      fmul = (\<lambda>x y. round53 (x * y))\<rparr>"

text \<open>
  The signed notional of a fill: \<open>size * price\<close>, positive for a \<^verbatim>\<open>'BID'\<close> fill and
  negative for any other side, as a real number.
\<close>

definition signed_notional :: "OwnTrade \<Rightarrow> real" where
  "signed_notional own_trade =
     (if OwnTrade.side own_trade = ''BID''
      then OwnTrade.size own_trade * OwnTrade.price own_trade
      else - (OwnTrade.size own_trade * OwnTrade.price own_trade))"

text \<open>The fills among the ticks, in processing order.\<close>

fun own_trades :: "(Update \<times> nat) list \<Rightarrow> OwnTrade list" where
  "own_trades [] = []"
| "own_trades ((OwnTradeU own_trade, draw) # rest) = own_trade # own_trades rest"
| "own_trades ((MdUpdateU md, draw) # rest) = own_trades rest"
| "own_trades ((ActionResponseU response, draw) # rest) = own_trades rest"

text \<open>The update is an \<^verbatim>\<open>OwnTrade\<close>.\<close>

definition is_own_trade :: "Update \<Rightarrow> bool" where
  "is_own_trade update = (case update of OwnTradeU own_trade \<Rightarrow> True | _ \<Rightarrow> False)"

text \<open>
  The timestamp that an iteration assigns to \<^verbatim>\<open>current_time\<close>: of the order book, of
  the trade, or of the update itself for an \<^verbatim>\<open>MdUpdate\<close>; of the fill for an
  \<^verbatim>\<open>OwnTrade\<close>; of the action inside an \<^verbatim>\<open>ActionResponse\<close>.
\<close>

definition effective_ts :: "Update \<Rightarrow> int option" where
  "effective_ts update =
     (case update of
        MdUpdateU md \<Rightarrow>
          (case MdUpdate.orderbook md of
             Some ob \<Rightarrow> Some (OrderbookSnapshotUpdate.receive_ts ob)
           | None \<Rightarrow>
               (case trade md of
                  Some tr \<Rightarrow> Some (AnonTrade.receive_ts tr)
                | None \<Rightarrow> Some (MdUpdate.receive_ts md)))
      | OwnTradeU own_trade \<Rightarrow> Some (OwnTrade.receive_ts own_trade)
      | ActionResponseU response \<Rightarrow> action_receive_ts (action response))"

text \<open>The value of \<^verbatim>\<open>current_time\<close> after each processed tick, up to the first exception.\<close>

fun times_after :: "float_arith \<Rightarrow> Strategy \<Rightarrow> (Update \<times> nat) list \<Rightarrow> int option list" where
  "times_after fl s [] = []"
| "times_after fl s ((update, draw) # rest) =
     (case step fl draw s update of
        Inl e \<Rightarrow> []
      | Inr s' \<Rightarrow> current_time s' # times_after fl s' rest)"

text \<open>Two times of the clock are comparable when both are set.\<close>

fun time_le :: "int option \<Rightarrow> int option \<Rightarrow> bool" where
  "time_le (Some t) (Some t') = (t \<le> t')"
| "time_le _ _ = False"

text \<open>The update is a response with code OK to an \<^verbatim>\<open>Order\<close> with id \<open>k\<close>.\<close>

definition confirms :: "int \<Rightarrow> Update \<Rightarrow> bool" where
  "confirms k update =
     (case update of
        ActionResponseU response \<Rightarrow>
          (case action response of
             OrderAction order \<Rightarrow> code response = OK \<and> Order.client_order_id order = k
           | OrderCancelAction cancel \<Rightarrow> False)
      | _ \<Rightarrow> False)"

text \<open>
  A well-formed ledger: the keys are pairwise different, as in any dictionary, and every
  order is stored under its own id, as lines 108 and 125 store it.
\<close>

definition ledger_ok :: "Order ordered_dict \<Rightarrow> bool" where
  "ledger_ok d =
     (distinct (map fst d) \<and> list_all (\<lambda>entry. Order.client_order_id (snd entry) = fst entry) d)"

text \<open>The ids of the cancel requests handed to \<^verbatim>\<open>sim.cancel_order\<close>, oldest first.\<close>

fun cancel_ids :: "Action list \<Rightarrow> int list" where
  "cancel_ids [] = []"
| "cancel_ids (OrderAction order # acts) = cancel_ids acts"
| "cancel_ids (OrderCancelAction cancel # acts) =
     OrderCancel.client_order_id cancel # cancel_ids acts"

text \<open>The ids of the orders handed to \<^verbatim>\<open>sim.place_order\<close>, oldest first.\<close>

definition placed_ids :: "Strategy \<Rightarrow> int list" where
  "placed_ids s = map Order.client_order_id (placed_orders (sim s))"

text \<open>
  Views of the result of a run or of an iteration: the orders placed and their ids, the
  keys of the ledger in iteration order, the ids of the cancel requests, the position.
\<close>

definition orders_placed :: "error + Strategy \<Rightarrow> error + Order list" where
  "orders_placed result = map_sum id (\<lambda>s. placed_orders (sim s)) result"

definition ids_placed :: "error + Strategy \<Rightarrow> error + int list" where
  "ids_placed result = map_sum id placed_ids result"

definition ledger_ids :: "error + Strategy \<Rightarrow> error + int list" where
  "ledger_ids result = map_sum id (\<lambda>s. map fst (active_orders s)) result"

definition cancels_sent :: "error + Strategy \<Rightarrow> error + int list" where
  "cancels_sent result = map_sum id (\<lambda>s. cancel_ids (sim s)) result"

definition position_of :: "error + Strategy \<Rightarrow> error + real" where
  "position_of result = map_sum id position_size_quote result"

text \<open>
  Sample updates: a snapshot with one level on each side, a snapshot whose ask side is
  empty, an update without payload, a fill, and the response to an order, whose action
  carries the timestamp \<open>action_ts\<close>.
\<close>

definition snapshot :: "int \<Rightarrow> real \<Rightarrow> real \<Rightarrow> Update" where
  "snapshot t bid_price ask_price =
     MdUpdateU \<lparr>MdUpdate.receive_ts = t,
                orderbook = Some \<lparr>OrderbookSnapshotUpdate.receive_ts = t,
                                  bids = [(bid_price, 1)], asks = [(ask_price, 1)]\<rparr>,
                trade = None\<rparr>"

definition one_sided :: "int \<Rightarrow> real \<Rightarrow> Update" where
  "one_sided t bid_price =
     MdUpdateU \<lparr>MdUpdate.receive_ts = t,
                orderbook = Some \<lparr>OrderbookSnapshotUpdate.receive_ts = t,
                                  bids = [(bid_price, 1)], asks = []\<rparr>,
                trade = None\<rparr>"

definition heartbeat :: "int \<Rightarrow> Update" where
  "heartbeat t = MdUpdateU \<lparr>MdUpdate.receive_ts = t, orderbook = None, trade = None\<rparr>"

definition fill :: "int \<Rightarrow> int \<Rightarrow> string \<Rightarrow> real \<Rightarrow> real \<Rightarrow> Update" where
  "fill t oid sd sz p =
     OwnTradeU \<lparr>OwnTrade.receive_ts = t, client_order_id = oid, side = sd, size = sz, price = p\<rparr>"

definition reply :: "int \<Rightarrow> Order \<Rightarrow> int \<Rightarrow> ResponseCode \<Rightarrow> Update" where
  "reply t order action_ts c =
     ActionResponseU \<lparr>ActionResponse.receive_ts = t,
                      action = OrderAction (order\<lparr>Order.receive_ts := Some action_ts\<rparr>),
                      code = c\<rparr>"

text \<open>
  Sample states and runs. \<open>holding now\<close> is a strategy with lifetime 100 whose ledger
  holds order 1, created at time 20, when the clock shows \<open>now\<close>.
\<close>

definition holding :: "int \<Rightarrow> Strategy" where
  "holding now =
     (place_order ((init 10000 100)\<lparr>Strategy.client_order_id := 3\<rparr>)
        (candidate ''BID'' 0 1 100))\<lparr>current_time := Some now\<rparr>"

definition ticks6 :: "(Update \<times> nat) list" where
  "ticks6 = [(snapshot 0 100 101, 0), (fill 30 1 ''BID'' 2 100, 0),
             (heartbeat 40, 0), (fill 50 9 ''ASK'' 1 50, 0)]"

definition fills6 :: "(Update \<times> nat) list" where
  "fills6 = [(fill 30 1 ''BID'' 2 100, 0), (fill 50 9 ''ASK'' 1 50, 0)]"

definition ticks1 :: "(Update \<times> nat) list" where
  "ticks1 = [(heartbeat 3, 0), (snapshot 5 100 101, 0), (fill 5 1 ''BID'' 2 100, 0),
             (reply 9 (candidate ''BID'' 5 1 100) 8 OK, 0)]"

definition ticks2 :: "(Update \<times> nat) list" where
  "ticks2 = [(snapshot 0 100 101, 0), (reply 40 (candidate ''BID'' 0 1 100) 30 REJECTED, 0)]"

definition ticks3 :: "(Update \<times> nat) list" where
  "ticks3 = [(snapshot 0 100 101, 0), (fill 30 1 ''BID'' (1 / 1000) 100, 0)]"

definition late_ok :: "Update \<times> nat" where
  "late_ok = (reply 50 (candidate ''BID'' 0 1 100) 40 OK, 0)"

text \<open>
  Three fills of size 1: a buy at price 1, a buy at price \<open>10 ^ 16\<close> and a sale at
  price \<open>10 ^ 16\<close>.
\<close>

definition rounding_fills :: "(Update \<times> nat) list" where
  "rounding_fills =
     [(fill 10 1 ''BID'' 1 1, 0), (fill 20 2 ''BID'' 1 (10 ^ 16), 0),
      (fill 30 3 ''ASK'' 1 (10 ^ 16), 0)]"

section \<open>Properties\<close>

subsection \<open>The id generator\<close>

lemma next_order_ids_from:
  "fst (next_order_ids n s) = map (\<lambda>i. Strategy.client_order_id s + int i) [0..<n]"
proof (induction n arbitrary: s)
  case 0
  show ?case by simp
next
  case (Suc n)
  have "map (\<lambda>i. Strategy.client_order_id s + int i) [0..<Suc n]
        = Strategy.client_order_id s # map (\<lambda>i. Strategy.client_order_id s + 1 + int i) [0..<n]"
    by (simp add: upt_rec[of 0 "Suc n"] map_Suc_upt[symmetric] del: upt_Suc)
  then show ?case
    using Suc.IH[of "snd (next_order_id s)"]
    by (simp add: next_order_id_def Let_def split_beta del: upt_Suc)
qed

text \<open>
  C8: the first call of \<^verbatim>\<open>next_order_id\<close> on a fresh strategy returns 1; a call
  directly after another returns exactly one more; hence the ids of any number of
  successive calls count up from 1 one by one, are strictly increasing and pairwise
  different.
\<close>

theorem C8_next_order_id_counts_up:
  "fst (next_order_id (init mp lt)) = 1
   \<and> fst (next_order_id (snd (next_order_id s))) = fst (next_order_id s) + 1
   \<and> fst (next_order_ids n (init mp lt)) = map (\<lambda>i. 1 + int i) [0..<n]
   \<and> sorted_wrt (<) (fst (next_order_ids n (init mp lt)))
   \<and> distinct (fst (next_order_ids n (init mp lt)))"
proof -
  have ids: "fst (next_order_ids n (init mp lt)) = map (\<lambda>i. 1 + int i) [0..<n]"
    by (simp add: next_order_ids_from init_def)
  have inc: "sorted_wrt (<) (map (\<lambda>i. 1 + int i) [0..<n])"
    by (simp add: sorted_wrt_map sorted_wrt_iff_nth_less)
  have dis: "distinct (map (\<lambda>i. 1 + int i) [0..<n])"
    by (simp add: distinct_map inj_on_def)
  show ?thesis
    using ids inc dis by (simp add: next_order_id_def init_def Let_def)
qed

subsection \<open>The sweep and the snapshot handler in closed form\<close>

lemma collect_to_cancel_takeWhile:
  "collect_to_cancel now lifetime d = map fst (takeWhile (expired now lifetime) d)"
  by (induction d) (auto simp: expired_def)

lemma cancel_keys_prefix:
  "active_orders s = pre @ rest \<Longrightarrow>
   cancel_keys now s (map fst pre) =
     Inr (s\<lparr>active_orders := rest, sim := sim s @ map (cancel_request now) pre\<rparr>)"
proof (induction pre arbitrary: s)
  case Nil
  then show ?case by simp
next
  case (Cons entry pre)
  obtain key order where entry: "entry = (key, order)" by (cases entry)
  let ?s1 = "s\<lparr>active_orders := pre @ rest, sim := sim s @ [cancel_request now entry]\<rparr>"
  have pop: "od_pop key (active_orders s) = Inr (order, pre @ rest)"
    using Cons.prems entry by simp
  have "cancel_keys now s (map fst (entry # pre)) = cancel_keys now ?s1 (map fst pre)"
    using pop entry by (simp add: cancel_request_def)
  also have "\<dots> = Inr (?s1\<lparr>active_orders := rest, sim := sim ?s1 @ map (cancel_request now) pre\<rparr>)"
    by (rule Cons.IH) simp
  finally show ?case by simp
qed

lemma cancel_old_orders_Some:
  assumes "current_time s = Some now"
  shows "cancel_old_orders s =
     Inr (s\<lparr>active_orders := dropWhile (expired now (order_lifetime s)) (active_orders s),
            sim := sim s @ map (cancel_request now)
                             (takeWhile (expired now (order_lifetime s)) (active_orders s))\<rparr>)"
proof -
  have "active_orders s = takeWhile (expired now (order_lifetime s)) (active_orders s)
                        @ dropWhile (expired now (order_lifetime s)) (active_orders s)"
    by simp
  from cancel_keys_prefix[OF this, of now] show ?thesis
    using assms by (simp add: cancel_old_orders_def collect_to_cancel_takeWhile)
qed

lemma placed_orders_append:
  "placed_orders (xs @ ys) = placed_orders xs @ placed_orders ys"
  by (induction xs rule: placed_orders.induct) simp_all

lemma placed_orders_cancel_requests:
  "placed_orders (map (cancel_request now) es) = []"
  by (induction es) (simp_all add: cancel_request_def)

lemma cancel_old_orders_cases:
  assumes "cancel_old_orders s = Inr s'"
  obtains (idle) "current_time s = None" "active_orders s = []" "s' = s"
  | (swept) now where "current_time s = Some now"
      "s' = s\<lparr>active_orders := dropWhile (expired now (order_lifetime s)) (active_orders s),
               sim := sim s @ map (cancel_request now)
                               (takeWhile (expired now (order_lifetime s)) (active_orders s))\<rparr>"
proof (cases "current_time s")
  case None
  with assms have "active_orders s = []" "s' = s"
    by (auto simp: cancel_old_orders_def split: if_splits)
  with None show ?thesis by (rule idle)
next
  case (Some now)
  with assms cancel_old_orders_Some[OF Some] show ?thesis by (auto intro: swept)
qed

lemma cancel_old_orders_frame:
  assumes "cancel_old_orders s = Inr s'"
  shows "position_size_quote s' = position_size_quote s"
    and "Strategy.client_order_id s' = Strategy.client_order_id s"
    and "current_time s' = current_time s"
    and "max_position s' = max_position s"
    and "order_lifetime s' = order_lifetime s"
    and "Strategy.orderbook s' = Strategy.orderbook s"
    and "placed_orders (sim s') = placed_orders (sim s)"
    and "set (active_orders s') \<subseteq> set (active_orders s)"
  using assms
  by (cases rule: cancel_old_orders_cases;
      simp add: placed_orders_append placed_orders_cancel_requests set_dropWhileD subsetI)+

lemma random_choice_sides:
  "random_choice draw [''BID'', ''ASK''] = (if even draw then ''BID'' else ''ASK'')"
proof -
  have len: "length [''BID'', ''ASK''] = 2" by simp
  show ?thesis
  proof (cases "even draw")
    case True
    then have "draw mod 2 = 0" by presburger
    then show ?thesis using True unfolding random_choice_def len by simp
  next
    case False
    then have "draw mod 2 = 1" by presburger
    then show ?thesis using False unfolding random_choice_def len by simp
  qed
qed

lemma on_orderbook_ok:
  assumes "bids ob = (bp, bq) # bs" and "asks ob = (ap, aq) # as"
  shows "on_orderbook draw s ob =
     Inr (place_order
            (s\<lparr>orderbook := Some ob,
               current_time := Some (OrderbookSnapshotUpdate.receive_ts ob),
               Strategy.client_order_id := Strategy.client_order_id s + 2\<rparr>)
            (if quoted_side draw s = ''BID''
             then candidate ''BID'' (OrderbookSnapshotUpdate.receive_ts ob)
                    (Strategy.client_order_id s) bp
             else candidate ''ASK'' (OrderbookSnapshotUpdate.receive_ts ob)
                    (Strategy.client_order_id s + 1) ap))"
  using assms
  by (simp add: on_orderbook_def next_order_id_def best_price_def Let_def
      quoted_side_def candidate_def random_choice_sides add.commute)

lemma on_orderbook_error:
  assumes "bids ob = [] \<or> asks ob = []"
  shows "on_orderbook draw s ob = Inl IndexError"
  using assms
  by (auto simp: on_orderbook_def next_order_id_def best_price_def Let_def
      split: list.splits)

lemma step_snapshot_ok:
  assumes md: "MdUpdate.orderbook md = Some ob"
    and b: "bids ob = (bp, bq) # bs" and a: "asks ob = (ap, aq) # as"
  shows "\<exists>s1. on_orderbook draw s ob = Inr s1
            \<and> current_time s1 = Some (OrderbookSnapshotUpdate.receive_ts ob)
            \<and> step fl draw s (MdUpdateU md) = cancel_old_orders s1"
  using md by (simp add: step_def on_md_update_def on_orderbook_ok[OF b a] place_order_def)

text \<open>The definitions that evaluate an iteration on concrete updates.\<close>

lemmas eval_defs = step_def on_md_update_def on_orderbook_def on_own_trade_def
  on_action_response_def cancel_old_orders_def next_order_id_def place_order_def
  best_price_def random_choice_def od_contains_def action_receive_ts_def
  snapshot_def heartbeat_def fill_def init_def Let_def
  double_arith_def round53_def round_half_even_def two_pow_def binary_exponent_def
  eval_nat_numeral

lemma step_snapshot_placed:
  assumes md: "MdUpdate.orderbook md = Some ob"
    and b: "bids ob = (bp, bq) # bs" and a: "asks ob = (ap, aq) # as"
  shows "\<exists>s'. step fl draw s (MdUpdateU md) = Inr s'
     \<and> Strategy.client_order_id s' = Strategy.client_order_id s + 2
     \<and> placed_orders (sim s') =
         placed_orders (sim s) @
         [if quoted_side draw s = ''BID''
          then candidate ''BID'' (OrderbookSnapshotUpdate.receive_ts ob)
                 (Strategy.client_order_id s) bp
          else candidate ''ASK'' (OrderbookSnapshotUpdate.receive_ts ob)
                 (Strategy.client_order_id s + 1) ap]"
proof -
  let ?s3 = "s\<lparr>orderbook := Some ob,
               current_time := Some (OrderbookSnapshotUpdate.receive_ts ob),
               Strategy.client_order_id := Strategy.client_order_id s + 2\<rparr>"
  let ?chosen = "if quoted_side draw s = ''BID''
          then candidate ''BID'' (OrderbookSnapshotUpdate.receive_ts ob)
                 (Strategy.client_order_id s) bp
          else candidate ''ASK'' (OrderbookSnapshotUpdate.receive_ts ob)
                 (Strategy.client_order_id s + 1) ap"
  let ?s1 = "place_order ?s3 ?chosen"
  have s1: "on_orderbook draw s ob = Inr ?s1" by (rule on_orderbook_ok[OF b a])
  have now: "current_time ?s1 = Some (OrderbookSnapshotUpdate.receive_ts ob)"
    by (simp add: place_order_def)
  have st: "step fl draw s (MdUpdateU md) = cancel_old_orders ?s1"
    using md s1 by (simp add: step_def on_md_update_def place_order_def)
  from cancel_old_orders_Some[OF now] obtain s' where s': "cancel_old_orders ?s1 = Inr s'"
    by blast
  have "placed_orders (sim s') = placed_orders (sim ?s1)"
    and "Strategy.client_order_id s' = Strategy.client_order_id ?s1"
    using cancel_old_orders_frame[OF s'] by simp_all
  then have "placed_orders (sim s') = placed_orders (sim s) @ [?chosen]"
    and "Strategy.client_order_id s' = Strategy.client_order_id s + 2"
    by (simp_all add: place_order_def placed_orders_append)
  with st s' show ?thesis by simp
qed

lemma od_pop_contains:
  "od_contains k d \<Longrightarrow> \<exists>v d'. od_pop k d = Inr (v, d') \<and> set d' \<subseteq> set d"
proof (induction d)
  case Nil
  then show ?case by (simp add: od_contains_def)
next
  case (Cons entry d)
  obtain k' v' where entry: "entry = (k', v')" by (cases entry)
  show ?case
  proof (cases "k' = k")
    case True
    with entry show ?thesis by auto
  next
    case False
    with Cons.prems entry have "od_contains k d" by (simp add: od_contains_def)
    from Cons.IH[OF this] obtain v d' where "od_pop k d = Inr (v, d')" "set d' \<subseteq> set d"
      by blast
    with False entry show ?thesis by auto
  qed
qed

lemma on_own_trade_ok:
  obtains s1 where "on_own_trade fl s own_trade = Inr s1"
    and "position_size_quote s1 = apply_fill fl (position_size_quote s) own_trade"
    and "current_time s1 = Some (OwnTrade.receive_ts own_trade)"
    and "Strategy.client_order_id s1 = Strategy.client_order_id s"
    and "sim s1 = sim s"
    and "set (active_orders s1) \<subseteq> set (active_orders s)"
    and "order_lifetime s1 = order_lifetime s"
    and "max_position s1 = max_position s"
proof (cases "od_contains (OwnTrade.client_order_id own_trade) (active_orders s)")
  case True
  from od_pop_contains[OF True] obtain v d'
    where pop: "od_pop (OwnTrade.client_order_id own_trade) (active_orders s) = Inr (v, d')"
      and sub: "set d' \<subseteq> set (active_orders s)" by blast
  show ?thesis
    by (rule that[of "s\<lparr>current_time := Some (OwnTrade.receive_ts own_trade),
                        active_orders := d',
                        position_size_quote :=
                          apply_fill fl (position_size_quote s) own_trade\<rparr>"])
       (use True pop sub in \<open>simp_all add: on_own_trade_def apply_fill_def\<close>)
next
  case False
  show ?thesis
    by (rule that[of "s\<lparr>current_time := Some (OwnTrade.receive_ts own_trade),
                        position_size_quote :=
                          apply_fill fl (position_size_quote s) own_trade\<rparr>"])
       (use False in \<open>simp_all add: on_own_trade_def apply_fill_def\<close>)
qed

lemma on_orderbook_Inr:
  assumes "on_orderbook draw s ob = Inr s1"
  obtains bp bq bs ap aq as where "bids ob = (bp, bq) # bs" and "asks ob = (ap, aq) # as"
proof -
  from assms on_orderbook_error[of ob draw s] have "bids ob \<noteq> []" "asks ob \<noteq> []" by auto
  then show ?thesis by (cases "bids ob"; cases "asks ob") (auto intro: that)
qed

lemma on_orderbook_frame:
  assumes "on_orderbook draw s ob = Inr s1"
  shows "position_size_quote s1 = position_size_quote s"
    and "Strategy.client_order_id s1 = Strategy.client_order_id s + 2"
    and "current_time s1 = Some (OrderbookSnapshotUpdate.receive_ts ob)"
    and "Strategy.orderbook s1 = Some ob"
    and "order_lifetime s1 = order_lifetime s"
    and "max_position s1 = max_position s"
proof -
  from assms obtain bp bq bs ap aq as
    where b: "bids ob = (bp, bq) # bs" and a: "asks ob = (ap, aq) # as"
    by (rule on_orderbook_Inr)
  from assms on_orderbook_ok[OF b a, of draw s]
  show "position_size_quote s1 = position_size_quote s"
    and "Strategy.client_order_id s1 = Strategy.client_order_id s + 2"
    and "current_time s1 = Some (OrderbookSnapshotUpdate.receive_ts ob)"
    and "Strategy.orderbook s1 = Some ob"
    and "order_lifetime s1 = order_lifetime s"
    and "max_position s1 = max_position s"
    by (auto simp: place_order_def)
qed

lemma keys_od_setitem:
  "fst ` set (od_setitem k v d) = insert k (fst ` set d)"
  by (induction k v d rule: od_setitem.induct) auto

lemma on_orderbook_keys:
  assumes "on_orderbook draw s ob = Inr s1"
  shows "\<exists>oid. Strategy.client_order_id s \<le> oid
           \<and> fst ` set (active_orders s1) = insert oid (fst ` set (active_orders s))"
proof -
  from assms obtain bp bq bs ap aq as
    where b: "bids ob = (bp, bq) # bs" and a: "asks ob = (ap, aq) # as"
    by (rule on_orderbook_Inr)
  let ?bid = "candidate ''BID'' (OrderbookSnapshotUpdate.receive_ts ob)
                (Strategy.client_order_id s) bp"
  let ?ask = "candidate ''ASK'' (OrderbookSnapshotUpdate.receive_ts ob)
                (Strategy.client_order_id s + 1) ap"
  let ?chosen = "if quoted_side draw s = ''BID'' then ?bid else ?ask"
  from assms on_orderbook_ok[OF b a, of draw s]
  have "active_orders s1 = od_setitem (Order.client_order_id ?chosen) ?chosen (active_orders s)"
    by (auto simp: place_order_def)
  then have "fst ` set (active_orders s1)
          = insert (Order.client_order_id ?chosen) (fst ` set (active_orders s))"
    by (simp only: keys_od_setitem)
  moreover have "Strategy.client_order_id s \<le> Order.client_order_id ?chosen"
    by (simp add: candidate_def)
  ultimately show ?thesis by blast
qed

lemma not_expired_survives:
  assumes "entry \<in> set d" and "\<not> expired now lifetime entry"
  shows "entry \<in> set (dropWhile (expired now lifetime) d)"
proof -
  have "set d = set (takeWhile (expired now lifetime) d) \<union> set (dropWhile (expired now lifetime) d)"
    by (metis set_append takeWhile_dropWhile_id)
  moreover have "entry \<notin> set (takeWhile (expired now lifetime) d)"
    using assms(2) by (auto dest: set_takeWhileD)
  ultimately show ?thesis using assms(1) by blast
qed

subsection \<open>The early stop of the sweep\<close>

lemma takeWhile_expired_filter:
  "creation_ordered d \<Longrightarrow>
   takeWhile (expired now lifetime) d = filter (expired now lifetime) d"
proof (induction d)
  case Nil
  show ?case by simp
next
  case (Cons entry d)
  from Cons.prems have ord: "creation_ordered d"
    and later: "\<forall>e \<in> set d. Order.client_ts (snd entry) \<le> Order.client_ts (snd e)"
    by (simp_all add: creation_ordered_def)
  show ?case
  proof (cases "expired now lifetime entry")
    case True
    with Cons.IH[OF ord] show ?thesis by simp
  next
    case False
    with later have "\<forall>e \<in> set d. \<not> expired now lifetime e"
      by (fastforce simp: expired_def)
    then have "filter (expired now lifetime) d = []"
      by (simp add: filter_empty_conv)
    with False show ?thesis by simp
  qed
qed

text \<open>
  C5: when the dictionary iterates in non-decreasing creation time, the scan of lines
  113-118, which stops at the first order still within its lifetime, collects the same
  list of ids as the full scan of the specification, and the ids collected are exactly
  those of the outstanding orders whose age \<open>now - client_ts\<close> exceeds the lifetime.
\<close>

theorem C5_early_stop_is_full_scan:
  assumes "creation_ordered d"
  shows "collect_to_cancel now lifetime d = sweep_full_scan now lifetime d
       \<and> set (collect_to_cancel now lifetime d)
           = {key. \<exists>order. (key, order) \<in> set d \<and> now - Order.client_ts order > lifetime}"
proof -
  have eq: "collect_to_cancel now lifetime d = map fst (filter (expired now lifetime) d)"
    by (simp add: collect_to_cancel_takeWhile takeWhile_expired_filter[OF assms])
  have "expired now lifetime = (\<lambda>entry. now - Order.client_ts (snd entry) > lifetime)"
    by (simp add: expired_def fun_eq_iff)
  with eq have full: "collect_to_cancel now lifetime d = sweep_full_scan now lifetime d"
    by (simp add: sweep_full_scan_def)
  have "set (map fst (filter (expired now lifetime) d))
        = {key. \<exists>order. (key, order) \<in> set d \<and> now - Order.client_ts order > lifetime}"
    by (force simp: expired_def)
  with eq full show ?thesis by simp
qed

text \<open>The theorem at a ledger whose third order is still within its lifetime.\<close>

theorem C5_witness:
  "creation_ordered ledger3
   \<and> collect_to_cancel 160 100 ledger3 = [1, 2]
   \<and> sweep_full_scan 160 100 ledger3 = [1, 2]"
  using C5_early_stop_is_full_scan[of ledger3 160 100]
  by (simp add: ledger3_def creation_ordered_def candidate_def sweep_full_scan_def)

subsection \<open>Reading the top of the book\<close>

text \<open>
  C9: the snapshot handler reads \<^verbatim>\<open>bids[0][0]\<close> and \<^verbatim>\<open>asks[0][0]\<close> whatever
  the position and the draw. When both sides of the snapshot are non-empty the reads are
  in bounds and the handler, and the whole iteration with its sweep, return normally;
  when a side is empty the handler ends in \<^verbatim>\<open>IndexError\<close>.
\<close>

theorem C9_snapshot_reads_both_sides:
  assumes "MdUpdate.orderbook md = Some ob"
  shows "(bids ob \<noteq> [] \<and> asks ob \<noteq> [] \<longrightarrow>
            (\<exists>s1. on_orderbook draw s ob = Inr s1) \<and> (\<exists>s'. step fl draw s (MdUpdateU md) = Inr s'))
       \<and> (bids ob = [] \<or> asks ob = [] \<longrightarrow>
            on_orderbook draw s ob = Inl IndexError \<and> step fl draw s (MdUpdateU md) = Inl IndexError)"
proof (intro conjI impI)
  assume ne: "bids ob \<noteq> [] \<and> asks ob \<noteq> []"
  then obtain bp bq bs ap aq as where b: "bids ob = (bp, bq) # bs" and a: "asks ob = (ap, aq) # as"
    by (cases "bids ob"; cases "asks ob") auto
  from step_snapshot_ok[OF assms b a, of draw s] obtain s1 where
    s1: "on_orderbook draw s ob = Inr s1"
      "current_time s1 = Some (OrderbookSnapshotUpdate.receive_ts ob)"
      "step fl draw s (MdUpdateU md) = cancel_old_orders s1"
    by blast
  show "\<exists>s1. on_orderbook draw s ob = Inr s1" using s1(1) by blast
  show "\<exists>s'. step fl draw s (MdUpdateU md) = Inr s'"
    using s1(3) cancel_old_orders_Some[OF s1(2)] by simp
next
  assume em: "bids ob = [] \<or> asks ob = []"
  show "on_orderbook draw s ob = Inl IndexError" by (rule on_orderbook_error[OF em])
  then show "step fl draw s (MdUpdateU md) = Inl IndexError"
    using assms by (simp add: step_def on_md_update_def)
qed

text \<open>
  The theorem on a snapshot with both sides and on a snapshot without asks, the latter
  with a position below the bound, where only the bid candidate would be placed.
\<close>

theorem C9_witness:
  "orders_placed (step double_arith 0 (init 10000 100) (snapshot 0 100 101)) = Inr [candidate ''BID'' 0 1 100]
   \<and> step double_arith 0 ((init 10000 100)\<lparr>position_size_quote := - 10001\<rparr>) (one_sided 0 100)
       = Inl IndexError"
  using C9_snapshot_reads_both_sides[of
      "\<lparr>MdUpdate.receive_ts = 0,
        orderbook = Some \<lparr>OrderbookSnapshotUpdate.receive_ts = 0,
                          bids = [(100, 1)], asks = [(101, 1)]\<rparr>,
        trade = None\<rparr>"
      "\<lparr>OrderbookSnapshotUpdate.receive_ts = 0, bids = [(100, 1)], asks = [(101, 1)]\<rparr>"
      0 "init 10000 100" double_arith]
    C9_snapshot_reads_both_sides[of
      "\<lparr>MdUpdate.receive_ts = 0,
        orderbook = Some \<lparr>OrderbookSnapshotUpdate.receive_ts = 0,
                          bids = [(100, 1)], asks = []\<rparr>,
        trade = None\<rparr>"
      "\<lparr>OrderbookSnapshotUpdate.receive_ts = 0, bids = [(100, 1)], asks = []\<rparr>"
      0 "(init 10000 100)\<lparr>position_size_quote := - 10001\<rparr>" double_arith]
  by (simp add: orders_placed_def one_sided_def candidate_def eval_defs)

subsection \<open>The quoting policy\<close>

text \<open>
  C7: for a processed order-book snapshot, with \<^verbatim>\<open>max_position\<close> non-negative as its
  meaning (a bound on an absolute value) requires: when \<^verbatim>\<open>position_size_quote\<close> is
  strictly below \<open>- max_position\<close> exactly one order is placed, the BID candidate at the
  best bid price, whatever the draw; when it is strictly above \<open>max_position\<close> the ASK
  candidate at the best ask price is placed, whatever the draw; otherwise the side is the
  one \<^verbatim>\<open>random.choice\<close> returns.
\<close>

theorem C7_quoted_side:
  assumes "0 \<le> max_position s"
    and "MdUpdate.orderbook md = Some ob"
    and "bids ob = (bp, bq) # bs" and "asks ob = (ap, aq) # as"
  shows "\<exists>s'. step fl draw s (MdUpdateU md) = Inr s'
     \<and> (position_size_quote s < - max_position s \<longrightarrow>
          placed_orders (sim s') =
            placed_orders (sim s) @
            [candidate ''BID'' (OrderbookSnapshotUpdate.receive_ts ob)
               (Strategy.client_order_id s) bp])
     \<and> (position_size_quote s > max_position s \<longrightarrow>
          placed_orders (sim s') =
            placed_orders (sim s) @
            [candidate ''ASK'' (OrderbookSnapshotUpdate.receive_ts ob)
               (Strategy.client_order_id s + 1) ap])
     \<and> (- max_position s \<le> position_size_quote s
          \<and> position_size_quote s \<le> max_position s \<longrightarrow>
          placed_orders (sim s') =
            placed_orders (sim s) @
            [if random_choice draw [''BID'', ''ASK''] = ''BID''
             then candidate ''BID'' (OrderbookSnapshotUpdate.receive_ts ob)
                    (Strategy.client_order_id s) bp
             else candidate ''ASK'' (OrderbookSnapshotUpdate.receive_ts ob)
                    (Strategy.client_order_id s + 1) ap])"
proof -
  from step_snapshot_placed[OF assms(2-4), of fl draw s] obtain s'
    where st: "step fl draw s (MdUpdateU md) = Inr s'"
      and pl: "placed_orders (sim s') =
         placed_orders (sim s) @
         [if quoted_side draw s = ''BID''
          then candidate ''BID'' (OrderbookSnapshotUpdate.receive_ts ob)
                 (Strategy.client_order_id s) bp
          else candidate ''ASK'' (OrderbookSnapshotUpdate.receive_ts ob)
                 (Strategy.client_order_id s + 1) ap]"
    by blast
  have short: "position_size_quote s < - max_position s \<Longrightarrow> quoted_side draw s = ''BID''"
    by (simp add: quoted_side_def)
  have long: "position_size_quote s > max_position s \<Longrightarrow> quoted_side draw s = ''ASK''"
    using assms(1) by (simp add: quoted_side_def)
  have mid: "- max_position s \<le> position_size_quote s \<and> position_size_quote s \<le> max_position s
             \<Longrightarrow> quoted_side draw s = random_choice draw [''BID'', ''ASK'']"
    by (auto simp: quoted_side_def)
  show ?thesis
    using st pl short long mid by (intro exI[of _ s']) (auto simp: random_choice_sides)
qed

text \<open>
  The theorem below the bound with a draw for ASK, above it with a draw for BID, and
  within the bounds with either draw.
\<close>

theorem C7_witness:
  "orders_placed (step double_arith 1 ((init 10000 100)\<lparr>position_size_quote := - 10001\<rparr>)
      (snapshot 0 100 101)) = Inr [candidate ''BID'' 0 1 100]
   \<and> orders_placed (step double_arith 0 ((init 10000 100)\<lparr>position_size_quote := 10001\<rparr>)
      (snapshot 0 100 101)) = Inr [candidate ''ASK'' 0 2 101]
   \<and> orders_placed (step double_arith 0 (init 10000 100) (snapshot 0 100 101))
      = Inr [candidate ''BID'' 0 1 100]
   \<and> orders_placed (step double_arith 1 (init 10000 100) (snapshot 0 100 101))
      = Inr [candidate ''ASK'' 0 2 101]"
  using
    C7_quoted_side[of "(init 10000 100)\<lparr>position_size_quote := - 10001\<rparr>"
      "\<lparr>MdUpdate.receive_ts = 0,
        orderbook = Some \<lparr>OrderbookSnapshotUpdate.receive_ts = 0,
                          bids = [(100, 1)], asks = [(101, 1)]\<rparr>,
        trade = None\<rparr>"
      "\<lparr>OrderbookSnapshotUpdate.receive_ts = 0, bids = [(100, 1)], asks = [(101, 1)]\<rparr>"
      100 1 "[]" 101 1 "[]" double_arith 1]
    C7_quoted_side[of "(init 10000 100)\<lparr>position_size_quote := 10001\<rparr>"
      "\<lparr>MdUpdate.receive_ts = 0,
        orderbook = Some \<lparr>OrderbookSnapshotUpdate.receive_ts = 0,
                          bids = [(100, 1)], asks = [(101, 1)]\<rparr>,
        trade = None\<rparr>"
      "\<lparr>OrderbookSnapshotUpdate.receive_ts = 0, bids = [(100, 1)], asks = [(101, 1)]\<rparr>"
      100 1 "[]" 101 1 "[]" double_arith 0]
    C7_quoted_side[of "init 10000 100"
      "\<lparr>MdUpdate.receive_ts = 0,
        orderbook = Some \<lparr>OrderbookSnapshotUpdate.receive_ts = 0,
                          bids = [(100, 1)], asks = [(101, 1)]\<rparr>,
        trade = None\<rparr>"
      "\<lparr>OrderbookSnapshotUpdate.receive_ts = 0, bids = [(100, 1)], asks = [(101, 1)]\<rparr>"
      100 1 "[]" 101 1 "[]" double_arith 1]
  by (simp add: orders_placed_def candidate_def eval_defs)

subsection \<open>Fills and the position\<close>

lemma on_md_update_position:
  assumes "on_md_update draw s md = Inr s1"
  shows "position_size_quote s1 = position_size_quote s"
  using assms on_orderbook_frame(1)
  by (auto simp: on_md_update_def split: option.splits)

lemma on_action_response_position:
  "position_size_quote (on_action_response s response) = position_size_quote s"
  by (simp add: on_action_response_def Let_def split: Action.splits)

lemma step_position:
  assumes "step fl draw s update = Inr s'"
  shows "position_size_quote s' =
         (case update of
            OwnTradeU own_trade \<Rightarrow> apply_fill fl (position_size_quote s) own_trade
          | _ \<Rightarrow> position_size_quote s)"
proof (cases update)
  case (MdUpdateU md)
  with assms obtain s1 where s1: "on_md_update draw s md = Inr s1"
    and "s' = s1 \<or> cancel_old_orders s1 = Inr s'"
    by (auto simp: step_def split: sum.splits if_splits)
  then have "position_size_quote s' = position_size_quote s1"
    using cancel_old_orders_frame(1) by auto
  with on_md_update_position[OF s1] MdUpdateU show ?thesis by simp
next
  case (OwnTradeU own_trade)
  obtain s1 where s1: "on_own_trade fl s own_trade = Inr s1"
    and pos: "position_size_quote s1 = apply_fill fl (position_size_quote s) own_trade"
    by (rule on_own_trade_ok)
  with assms OwnTradeU have "cancel_old_orders s1 = Inr s'" by (simp add: step_def)
  from cancel_old_orders_frame(1)[OF this] pos OwnTradeU show ?thesis by simp
next
  case (ActionResponseU response)
  with assms have "cancel_old_orders (on_action_response s response) = Inr s'"
    by (simp add: step_def)
  from cancel_old_orders_frame(1)[OF this] ActionResponseU show ?thesis
    by (simp add: on_action_response_position)
qed

lemma run_position:
  "run fl s ticks = Inr s' \<Longrightarrow>
   position_size_quote s' = foldl (apply_fill fl) (position_size_quote s) (own_trades ticks)"
proof (induction ticks arbitrary: s)
  case Nil
  then show ?case by simp
next
  case (Cons tick ticks)
  obtain update draw where tick: "tick = (update, draw)" by (cases tick)
  with Cons.prems obtain s1 where s1: "step fl draw s update = Inr s1"
    and rest: "run fl s1 ticks = Inr s'"
    by (auto split: sum.splits)
  from step_position[OF s1] Cons.IH[OF rest] tick show ?case
    by (cases update) simp_all
qed

lemma foldl_exact_fills:
  "foldl (apply_fill exact_arith) position fills
   = position + sum_list (map signed_notional fills)"
  by (induction fills arbitrary: position)
     (simp_all add: apply_fill_def exact_arith_def signed_notional_def)

text \<open>
  C6, as the code has it: after any run, \<^verbatim>\<open>position_size_quote\<close> is the result of
  booking the \<^verbatim>\<open>OwnTrade\<close> events processed, in processing order and with the float
  operations of lines 98 and 100, on its value before the run (0 for a fresh strategy):
  \<open>p + size * price\<close> for a \<^verbatim>\<open>'BID'\<close> fill and \<open>p - size * price\<close> for an
  \<^verbatim>\<open>'ASK'\<close> fill (the code treats every side other than \<^verbatim>\<open>'BID'\<close> as
  \<^verbatim>\<open>'ASK'\<close>). In arithmetic that does not round, this is the signed sum of
  \<open>size * price\<close> over the fills. An iteration for any other kind of event leaves the
  position unchanged, so two runs with the same fills end with the same position
  however the fills are interleaved with other events.
\<close>

theorem C6_position_accounting:
  "(run fl s ticks = Inr s' \<longrightarrow>
      position_size_quote s' =
        foldl (apply_fill fl) (position_size_quote s) (own_trades ticks))
   \<and> (run fl (init max_pos lifetime) ticks = Inr s' \<longrightarrow>
      position_size_quote s' = foldl (apply_fill fl) 0 (own_trades ticks))
   \<and> (run exact_arith s ticks = Inr s' \<longrightarrow>
      position_size_quote s' =
        position_size_quote s + sum_list (map signed_notional (own_trades ticks)))
   \<and> (step fl draw s update = Inr s1 \<and> \<not> is_own_trade update \<longrightarrow>
      position_size_quote s1 = position_size_quote s)
   \<and> (run fl s ticks = Inr s' \<and> run fl s other = Inr s2
        \<and> own_trades ticks = own_trades other \<longrightarrow>
      position_size_quote s' = position_size_quote s2)"
proof (intro conjI impI)
  assume "run fl s ticks = Inr s'"
  then show "position_size_quote s' =
        foldl (apply_fill fl) (position_size_quote s) (own_trades ticks)"
    by (rule run_position)
next
  assume "run fl (init max_pos lifetime) ticks = Inr s'"
  from run_position[OF this]
  show "position_size_quote s' = foldl (apply_fill fl) 0 (own_trades ticks)"
    by (simp add: init_def)
next
  assume "run exact_arith s ticks = Inr s'"
  from run_position[OF this]
  show "position_size_quote s' =
        position_size_quote s + sum_list (map signed_notional (own_trades ticks))"
    by (simp add: foldl_exact_fills)
next
  assume "step fl draw s update = Inr s1 \<and> \<not> is_own_trade update"
  then show "position_size_quote s1 = position_size_quote s"
    using step_position[of fl draw s update s1]
    by (cases update) (simp_all add: is_own_trade_def)
next
  assume "run fl s ticks = Inr s' \<and> run fl s other = Inr s2
        \<and> own_trades ticks = own_trades other"
  then show "position_size_quote s' = position_size_quote s2"
    using run_position[of fl s ticks s'] run_position[of fl s other s2] by simp
qed

text \<open>
  The theorem on a run with two fills between market data, in binary64 arithmetic and
  in exact arithmetic: 2 * 100 - 1 * 50 = 150, and no operation rounds.
\<close>

theorem C6_witness:
  "position_of (run double_arith (init 10000 100) ticks6) = Inr 150
   \<and> foldl (apply_fill double_arith) 0 (own_trades ticks6) = 150
   \<and> position_of (run exact_arith (init 10000 100) ticks6) = Inr 150
   \<and> sum_list (map signed_notional (own_trades ticks6)) = 150
   \<and> position_of (step double_arith 0 (init 10000 100) (heartbeat 40)) = Inr 0
   \<and> \<not> is_own_trade (heartbeat 40)
   \<and> own_trades ticks6 = own_trades fills6
   \<and> position_of (run double_arith (init 10000 100) fills6) = Inr 150"
  using C6_position_accounting[where fl = double_arith and s = "init 10000 100"
      and ticks = ticks6 and s' = "projr (run double_arith (init 10000 100) ticks6)"
      and max_pos = 10000 and lifetime = 100 and draw = 0 and update = "heartbeat 40"
      and ?s1.0 = "projr (step double_arith 0 (init 10000 100) (heartbeat 40))"
      and other = fills6
      and ?s2.0 = "projr (run double_arith (init 10000 100) fills6)"]
    C6_position_accounting[where fl = exact_arith and s = "init 10000 100"
      and ticks = ticks6 and s' = "projr (run exact_arith (init 10000 100) ticks6)"
      and max_pos = 10000 and lifetime = 100]
  by (simp add: ticks6_def fills6_def position_of_def signed_notional_def
      is_own_trade_def apply_fill_def exact_arith_def eval_defs)

text \<open>
  In binary64 arithmetic the position is not the signed sum of the fills: after a buy
  for 1, a buy for \<open>10 ^ 16\<close> and a sale for \<open>10 ^ 16\<close> the signed sum is 1, but
  \<open>1 + 10 ^ 16\<close> rounds to \<open>10 ^ 16\<close> and the position ends at 0.
\<close>

theorem C6_counterexample:
  "position_of (run double_arith (init 10000 100) rounding_fills) = Inr 0
   \<and> sum_list (map signed_notional (own_trades rounding_fills)) = 1
   \<and> fadd double_arith 1 (10 ^ 16) = 10 ^ 16"
  by (simp add: rounding_fills_def position_of_def signed_notional_def eval_defs)

subsection \<open>The clock of the strategy\<close>

lemma on_md_update_time:
  assumes "on_md_update draw s md = Inr s1"
  shows "current_time s1 = effective_ts (MdUpdateU md)"
  using assms on_orderbook_frame(3)
  by (auto simp: on_md_update_def effective_ts_def split: option.splits)

lemma step_time:
  assumes "step fl draw s update = Inr s'"
  shows "current_time s' = effective_ts update"
proof (cases update)
  case (MdUpdateU md)
  with assms obtain s1 where s1: "on_md_update draw s md = Inr s1"
    and "s' = s1 \<or> cancel_old_orders s1 = Inr s'"
    by (auto simp: step_def split: sum.splits if_splits)
  then have "current_time s' = current_time s1"
    using cancel_old_orders_frame(3) by auto
  with on_md_update_time[OF s1] MdUpdateU show ?thesis by simp
next
  case (OwnTradeU own_trade)
  obtain s1 where s1: "on_own_trade fl s own_trade = Inr s1"
    and now: "current_time s1 = Some (OwnTrade.receive_ts own_trade)"
    by (rule on_own_trade_ok)
  with assms OwnTradeU have "cancel_old_orders s1 = Inr s'" by (simp add: step_def)
  from cancel_old_orders_frame(3)[OF this] now OwnTradeU show ?thesis
    by (simp add: effective_ts_def)
next
  case (ActionResponseU response)
  with assms have "cancel_old_orders (on_action_response s response) = Inr s'"
    by (simp add: step_def)
  from cancel_old_orders_frame(3)[OF this] ActionResponseU show ?thesis
    by (simp add: effective_ts_def on_action_response_def Let_def split: Action.splits)
qed

lemma times_after_processed:
  "times_after fl s ticks =
     map (\<lambda>tick. effective_ts (fst tick)) (take (length (times_after fl s ticks)) ticks)"
proof (induction ticks arbitrary: s)
  case Nil
  show ?case by simp
next
  case (Cons tick ticks)
  obtain update draw where tick: "tick = (update, draw)" by (cases tick)
  show ?case
  proof (cases "step fl draw s update")
    case (Inl e)
    with tick show ?thesis by simp
  next
    case (Inr s1)
    with tick step_time[OF Inr] Cons.IH[of s1] show ?thesis by simp
  qed
qed

lemma run_times_after_length:
  "run fl s ticks = Inr s' \<Longrightarrow> length (times_after fl s ticks) = length ticks"
proof (induction ticks arbitrary: s)
  case Nil
  show ?case by simp
next
  case (Cons tick ticks)
  obtain update draw where tick: "tick = (update, draw)" by (cases tick)
  with Cons.prems obtain s1 where "step fl draw s update = Inr s1" "run fl s1 ticks = Inr s'"
    by (auto split: sum.splits)
  with tick Cons.IH[of s1] show ?case by simp
qed

text \<open>
  C1: after every processed event \<^verbatim>\<open>current_time\<close> equals that event's effective
  timestamp (for an \<^verbatim>\<open>ActionResponse\<close> the timestamp of the action inside, not of the
  response). Hence over every sequence of events that the event source delivers, in
  non-decreasing order of these timestamps, \<^verbatim>\<open>current_time\<close> is non-decreasing: its
  value after one event is at most its value after any later event.
\<close>

theorem C1_time_follows_events:
  "times_after fl s ticks =
     map (\<lambda>tick. effective_ts (fst tick)) (take (length (times_after fl s ticks)) ticks)
   \<and> (run fl s ticks = Inr s' \<longrightarrow>
        times_after fl s ticks = map (\<lambda>tick. effective_ts (fst tick)) ticks)
   \<and> (sorted_wrt time_le (map (\<lambda>tick. effective_ts (fst tick)) ticks) \<longrightarrow>
        sorted_wrt time_le (times_after fl s ticks))"
proof (intro conjI impI)
  show prefix: "times_after fl s ticks =
     map (\<lambda>tick. effective_ts (fst tick)) (take (length (times_after fl s ticks)) ticks)"
    by (rule times_after_processed)
  {
    assume "run fl s ticks = Inr s'"
    from run_times_after_length[OF this] prefix
    show "times_after fl s ticks = map (\<lambda>tick. effective_ts (fst tick)) ticks" by simp
  }
  {
    assume "sorted_wrt time_le (map (\<lambda>tick. effective_ts (fst tick)) ticks)"
    then have "sorted_wrt time_le
        (take (length (times_after fl s ticks)) (map (\<lambda>tick. effective_ts (fst tick)) ticks))"
      by (rule sorted_wrt_take)
    with prefix show "sorted_wrt time_le (times_after fl s ticks)" by (simp add: take_map)
  }
qed

text \<open>The theorem on a run of four events with times 3, 5, 5 and 8.\<close>

theorem C1_witness:
  "times_after double_arith (init 10000 100) ticks1 = [Some 3, Some 5, Some 5, Some 8]
   \<and> map (\<lambda>tick. effective_ts (fst tick)) ticks1 = [Some 3, Some 5, Some 5, Some 8]
   \<and> sorted_wrt time_le (times_after double_arith (init 10000 100) ticks1)"
  using C1_time_follows_events[of double_arith "init 10000 100" ticks1
      "projr (run double_arith (init 10000 100) ticks1)"]
  by (simp add: ticks1_def effective_ts_def reply_def candidate_def eval_defs)

subsection \<open>Responses to placed orders\<close>

text \<open>
  C2, as the code has it: an \<^verbatim>\<open>ActionResponse\<close> for an \<^verbatim>\<open>Order\<close> with a code other
  than OK registers nothing and removes nothing. Every id in the ledger after the
  iteration was in it before; the ledger after is the ledger before without the orders
  that the lifetime sweep of this iteration cancels; in particular an order that
  \<^verbatim>\<open>place_order\<close> registered stays in the ledger after its rejection while it is
  within its lifetime.
\<close>

theorem C2_rejection_leaves_ledger:
  assumes "code response \<noteq> OK"
    and "action response = OrderAction order"
    and "step fl draw s (ActionResponseU response) = Inr s'"
  shows "fst ` set (active_orders s') \<subseteq> fst ` set (active_orders s)
     \<and> (\<forall>now. Order.receive_ts order = Some now \<longrightarrow>
           active_orders s' = dropWhile (expired now (order_lifetime s)) (active_orders s))
     \<and> (\<forall>now placed. Order.receive_ts order = Some now
           \<and> (Order.client_order_id order, placed) \<in> set (active_orders s)
           \<and> now - Order.client_ts placed \<le> order_lifetime s \<longrightarrow>
           (Order.client_order_id order, placed) \<in> set (active_orders s'))"
proof -
  let ?s1 = "s\<lparr>current_time := Order.receive_ts order\<rparr>"
  have s1: "on_action_response s response = ?s1"
    using assms(1,2) by (simp add: on_action_response_def action_receive_ts_def)
  with assms(3) have sw: "cancel_old_orders ?s1 = Inr s'" by (simp add: step_def)
  from cancel_old_orders_frame(8)[OF sw]
  have sub: "fst ` set (active_orders s') \<subseteq> fst ` set (active_orders s)" by auto
  have drop: "active_orders s' = dropWhile (expired now (order_lifetime s)) (active_orders s)"
    if "Order.receive_ts order = Some now" for now
    using sw that cancel_old_orders_Some[of ?s1 now] by simp
  have stay: "(Order.client_order_id order, placed) \<in> set (active_orders s')"
    if "Order.receive_ts order = Some now"
      and "(Order.client_order_id order, placed) \<in> set (active_orders s)"
      and "now - Order.client_ts placed \<le> order_lifetime s" for now placed
    using drop[OF that(1)] not_expired_survives[OF that(2), of now "order_lifetime s"] that(3)
    by (simp add: expired_def)
  from sub drop stay show ?thesis by blast
qed

text \<open>
  Order 1 is placed at a snapshot and rejected by the simulator: after the response its
  id is still in the ledger.
\<close>

theorem C2_counterexample:
  "orders_placed (run double_arith (init 10000 100) [(snapshot 0 100 101, 0)])
     = Inr [candidate ''BID'' 0 1 100]
   \<and> ledger_ids (run double_arith (init 10000 100) ticks2) = Inr [1]"
  by (simp add: ticks2_def orders_placed_def ledger_ids_def reply_def candidate_def eval_defs)

text \<open>The theorem on that rejection, and on a rejection that arrives after the lifetime.\<close>

theorem C2_witness:
  "ledger_ids (run double_arith (init 10000 100) [(snapshot 0 100 101, 0)]) = Inr [1]
   \<and> ledger_ids (run double_arith (init 10000 100) ticks2) = Inr [1]
   \<and> ledger_ids (run double_arith (init 10000 100)
        [(snapshot 0 100 101, 0), (reply 140 (candidate ''BID'' 0 1 100) 130 REJECTED, 0)])
      = Inr []"
  using C2_rejection_leaves_ledger[of
      "\<lparr>ActionResponse.receive_ts = 40,
        action = OrderAction ((candidate ''BID'' 0 1 100)\<lparr>Order.receive_ts := Some 30\<rparr>),
        code = REJECTED\<rparr>"
      "(candidate ''BID'' 0 1 100)\<lparr>Order.receive_ts := Some 30\<rparr>" double_arith 0
      "projr (run double_arith (init 10000 100) [(snapshot 0 100 101, 0)])"
      "projr (run double_arith (init 10000 100) ticks2)"]
  by (simp add: ticks2_def ledger_ids_def reply_def candidate_def eval_defs)

subsection \<open>Ids that have left the ledger\<close>

lemma step_keeps_absent:
  assumes st: "step fl draw s update = Inr s'"
    and absent: "k \<notin> fst ` set (active_orders s)"
    and issued: "k < Strategy.client_order_id s"
    and other: "\<not> confirms k update"
  shows "k \<notin> fst ` set (active_orders s') \<and> k < Strategy.client_order_id s'"
proof (cases update)
  case (MdUpdateU md)
  with st obtain s1 where s1: "on_md_update draw s md = Inr s1"
    and sw: "s' = s1 \<or> cancel_old_orders s1 = Inr s'"
    by (auto simp: step_def split: sum.splits if_splits)
  have "k \<notin> fst ` set (active_orders s1) \<and> k < Strategy.client_order_id s1"
  proof (cases "MdUpdate.orderbook md")
    case None
    with s1 absent issued show ?thesis
      by (auto simp: on_md_update_def split: option.splits)
  next
    case (Some ob)
    with s1 have ob: "on_orderbook draw s ob = Inr s1" by (simp add: on_md_update_def)
    from on_orderbook_keys[OF ob] obtain oid where "Strategy.client_order_id s \<le> oid"
      and keys: "fst ` set (active_orders s1) = insert oid (fst ` set (active_orders s))"
      by blast
    with issued have "k \<noteq> oid" by simp
    with keys absent have "k \<notin> fst ` set (active_orders s1)" by simp
    with on_orderbook_frame(2)[OF ob] issued show ?thesis by simp
  qed
  moreover from sw have "set (active_orders s') \<subseteq> set (active_orders s1)"
    and "Strategy.client_order_id s' = Strategy.client_order_id s1"
    using cancel_old_orders_frame(2,8)[of s1 s'] by auto
  ultimately show ?thesis by auto
next
  case (OwnTradeU own_trade)
  obtain s1 where s1: "on_own_trade fl s own_trade = Inr s1"
    and "Strategy.client_order_id s1 = Strategy.client_order_id s"
    and "set (active_orders s1) \<subseteq> set (active_orders s)"
    by (rule on_own_trade_ok)
  moreover from st OwnTradeU s1 have sw: "cancel_old_orders s1 = Inr s'" by (simp add: step_def)
  ultimately show ?thesis
    using cancel_old_orders_frame(2,8)[OF sw] absent issued by auto
next
  case (ActionResponseU response)
  let ?s1 = "on_action_response s response"
  from st ActionResponseU have sw: "cancel_old_orders ?s1 = Inr s'" by (simp add: step_def)
  have "k \<notin> fst ` set (active_orders ?s1)"
    using absent other ActionResponseU
    by (auto simp: on_action_response_def confirms_def keys_od_setitem Let_def
        split: Action.splits)
  moreover have "Strategy.client_order_id ?s1 = Strategy.client_order_id s"
    by (simp add: on_action_response_def Let_def split: Action.splits)
  ultimately show ?thesis
    using cancel_old_orders_frame(2,8)[OF sw] issued by auto
qed

text \<open>
  C3, as the code has it: an id that the id generator has already issued (it is below the
  counter) and that is absent from the ledger, as it is after its removal by a fill or by
  a sweep, stays absent over every run in which no \<^verbatim>\<open>ActionResponse\<close> with code OK
  for an \<^verbatim>\<open>Order\<close> with that id is processed.
\<close>

theorem C3_absent_stays_absent:
  assumes "k \<notin> fst ` set (active_orders s)"
    and "k < Strategy.client_order_id s"
    and "\<forall>tick \<in> set ticks. \<not> confirms k (fst tick)"
    and "run fl s ticks = Inr s'"
  shows "k \<notin> fst ` set (active_orders s')"
proof -
  have "k \<notin> fst ` set (active_orders s') \<and> k < Strategy.client_order_id s'"
    using assms
  proof (induction ticks arbitrary: s)
    case Nil
    then show ?case by simp
  next
    case (Cons tick ticks)
    obtain update draw where tick: "tick = (update, draw)" by (cases tick)
    with Cons.prems(4) obtain s1 where s1: "step fl draw s update = Inr s1"
      and rest: "run fl s1 ticks = Inr s'"
      by (auto split: sum.splits)
    from Cons.prems(3) tick have "\<not> confirms k update" by simp
    from step_keeps_absent[OF s1 Cons.prems(1,2) this]
    have "k \<notin> fst ` set (active_orders s1)" "k < Strategy.client_order_id s1" by simp_all
    moreover from Cons.prems(3) have "\<forall>tick \<in> set ticks. \<not> confirms k (fst tick)" by simp
    ultimately show ?case using rest by (rule Cons.IH)
  qed
  then show ?thesis by simp
qed

text \<open>
  A response with code OK that arrives after the fill of its order puts the order back:
  order 1 is placed, then filled and removed, then confirmed and in the ledger again.
\<close>

theorem C3_counterexample:
  "ledger_ids (run double_arith (init 10000 100) [(snapshot 0 100 101, 0)]) = Inr [1]
   \<and> ledger_ids (run double_arith (init 10000 100) ticks3) = Inr []
   \<and> ledger_ids (run double_arith (init 10000 100) (ticks3 @ [late_ok])) = Inr [1]"
  by (simp add: ticks3_def late_ok_def ledger_ids_def reply_def candidate_def eval_defs)

text \<open>
  The theorem for id 1 after its fill, over a snapshot that places order 4 and the
  confirmation of order 4.
\<close>

theorem C3_witness:
  "ledger_ids (run double_arith (init 10000 100) ticks3) = Inr []
   \<and> Strategy.client_order_id (projr (run double_arith (init 10000 100) ticks3)) = 3
   \<and> \<not> confirms 1 (snapshot 60 100 101)
   \<and> \<not> confirms 1 (reply 90 (candidate ''ASK'' 60 4 101) 80 OK)
   \<and> ledger_ids (run double_arith (projr (run double_arith (init 10000 100) ticks3))
        [(snapshot 60 100 101, 1), (reply 90 (candidate ''ASK'' 60 4 101) 80 OK, 0)])
      = Inr [4]"
  using C3_absent_stays_absent[of 1 "projr (run double_arith (init 10000 100) ticks3)"
      "[(snapshot 60 100 101, 1), (reply 90 (candidate ''ASK'' 60 4 101) 80 OK, 0)]"
      double_arith
      "projr (run double_arith (projr (run double_arith (init 10000 100) ticks3))
        [(snapshot 60 100 101, 1), (reply 90 (candidate ''ASK'' 60 4 101) 80 OK, 0)])"]
  by (simp add: ticks3_def ledger_ids_def confirms_def reply_def candidate_def eval_defs)

subsection \<open>The lifetime of an order\<close>

text \<open>Every ledger of a run of a fresh strategy is well formed.\<close>

lemma ledger_ok_Cons:
  "ledger_ok ((k, v) # d) \<longleftrightarrow>
     k \<notin> fst ` set d \<and> Order.client_order_id v = k \<and> ledger_ok d"
  by (auto simp: ledger_ok_def)

lemma ledger_ok_setitem:
  "ledger_ok d \<Longrightarrow> ledger_ok (od_setitem (Order.client_order_id order) order d)"
proof (induction d)
  case Nil
  show ?case by (simp add: ledger_ok_def)
next
  case (Cons entry d)
  obtain k v where entry: "entry = (k, v)" by (cases entry)
  with Cons.prems have k: "k \<notin> fst ` set d" and v: "Order.client_order_id v = k"
    and d: "ledger_ok d"
    by (simp_all add: ledger_ok_Cons)
  show ?case
  proof (cases "k = Order.client_order_id order")
    case True
    with entry k d show ?thesis by (simp add: ledger_ok_Cons)
  next
    case False
    with entry k v Cons.IH[OF d] show ?thesis
      by (simp add: ledger_ok_Cons keys_od_setitem)
  qed
qed

lemma od_pop_subset:
  "od_pop k d = Inr (v, d') \<Longrightarrow> set d' \<subseteq> set d"
proof (induction d arbitrary: d')
  case Nil
  then show ?case by simp
next
  case (Cons entry d)
  obtain k' v' where entry: "entry = (k', v')" by (cases entry)
  show ?case
  proof (cases "k' = k")
    case True
    with Cons.prems entry show ?thesis by auto
  next
    case False
    with Cons.prems entry obtain d1 where "od_pop k d = Inr (v, d1)" "d' = (k', v') # d1"
      by (auto split: sum.splits)
    with Cons.IH[of d1] entry show ?thesis by auto
  qed
qed

lemma ledger_ok_pop:
  "od_pop k d = Inr (v, d') \<Longrightarrow> ledger_ok d \<Longrightarrow> ledger_ok d'"
proof (induction d arbitrary: d')
  case Nil
  then show ?case by simp
next
  case (Cons entry d)
  obtain k' v' where entry: "entry = (k', v')" by (cases entry)
  with Cons.prems(2) have k': "k' \<notin> fst ` set d" and v': "Order.client_order_id v' = k'"
    and d: "ledger_ok d"
    by (simp_all add: ledger_ok_Cons)
  show ?case
  proof (cases "k' = k")
    case True
    with Cons.prems(1) entry d show ?thesis by simp
  next
    case False
    with Cons.prems(1) entry obtain d1 where pop: "od_pop k d = Inr (v, d1)"
      and d': "d' = (k', v') # d1"
      by (auto split: sum.splits)
    from od_pop_subset[OF pop] have "set d1 \<subseteq> set d" .
    with k' have "k' \<notin> fst ` set d1" by auto
    with d' v' Cons.IH[OF pop d] show ?thesis by (simp add: ledger_ok_Cons)
  qed
qed

lemma ledger_ok_dropWhile: "ledger_ok d \<Longrightarrow> ledger_ok (dropWhile P d)"
  by (induction d) (auto simp: ledger_ok_def)

lemma cancel_old_orders_ledger_ok:
  assumes "cancel_old_orders s = Inr s'" and "ledger_ok (active_orders s)"
  shows "ledger_ok (active_orders s')"
  using assms by (cases rule: cancel_old_orders_cases) (simp_all add: ledger_ok_dropWhile)

lemma step_ledger_ok:
  assumes st: "step fl draw s update = Inr s'" and ok: "ledger_ok (active_orders s)"
  shows "ledger_ok (active_orders s')"
proof (cases update)
  case (MdUpdateU md)
  with st obtain s1 where s1: "on_md_update draw s md = Inr s1"
    and sw: "s' = s1 \<or> cancel_old_orders s1 = Inr s'"
    by (auto simp: step_def split: sum.splits if_splits)
  have "ledger_ok (active_orders s1)"
  proof (cases "MdUpdate.orderbook md")
    case None
    with s1 ok show ?thesis by (auto simp: on_md_update_def split: option.splits)
  next
    case (Some ob)
    with s1 have ob: "on_orderbook draw s ob = Inr s1" by (simp add: on_md_update_def)
    then obtain bp bq bs ap aq as
      where b: "bids ob = (bp, bq) # bs" and a: "asks ob = (ap, aq) # as"
      by (rule on_orderbook_Inr)
    from ob on_orderbook_ok[OF b a, of draw s] ledger_ok_setitem[OF ok] show ?thesis
      by (auto simp: place_order_def)
  qed
  with sw cancel_old_orders_ledger_ok[of s1 s'] show ?thesis by auto
next
  case (OwnTradeU own_trade)
  have "\<exists>s1. on_own_trade fl s own_trade = Inr s1 \<and> ledger_ok (active_orders s1)"
  proof (cases "od_contains (OwnTrade.client_order_id own_trade) (active_orders s)")
    case True
    from od_pop_contains[OF True] obtain v d'
      where pop: "od_pop (OwnTrade.client_order_id own_trade) (active_orders s) = Inr (v, d')"
      by blast
    from ledger_ok_pop[OF pop ok] True pop show ?thesis
      by (auto simp: on_own_trade_def Let_def)
  next
    case False
    with ok show ?thesis by (auto simp: on_own_trade_def Let_def)
  qed
  then obtain s1 where "on_own_trade fl s own_trade = Inr s1" "ledger_ok (active_orders s1)"
    by blast
  with st OwnTradeU cancel_old_orders_ledger_ok[of s1 s'] show ?thesis
    by (simp add: step_def)
next
  case (ActionResponseU response)
  have "ledger_ok (active_orders (on_action_response s response))"
    using ok ledger_ok_setitem[OF ok]
    by (simp add: on_action_response_def Let_def split: Action.splits)
  with st ActionResponseU cancel_old_orders_ledger_ok show ?thesis
    by (simp add: step_def)
qed

lemma run_ledger_ok:
  "run fl s ticks = Inr s' \<Longrightarrow> ledger_ok (active_orders s) \<Longrightarrow> ledger_ok (active_orders s')"
proof (induction ticks arbitrary: s)
  case Nil
  then show ?case by simp
next
  case (Cons tick ticks)
  obtain update draw where "tick = (update, draw)" by (cases tick)
  with Cons.prems(1) obtain s1 where s1: "step fl draw s update = Inr s1"
    and rest: "run fl s1 ticks = Inr s'"
    by (auto split: sum.splits)
  from Cons.IH[OF rest step_ledger_ok[OF s1 Cons.prems(2)]] show ?case .
qed

lemma reachable_ledger_ok:
  assumes "run fl (init max_pos lifetime) ticks = Inr s"
  shows "ledger_ok (active_orders s)"
proof -
  have "ledger_ok (active_orders (init max_pos lifetime))"
    by (simp add: init_def ledger_ok_def)
  from run_ledger_ok[OF assms this] show ?thesis .
qed

lemma cancel_ids_append: "cancel_ids (xs @ ys) = cancel_ids xs @ cancel_ids ys"
  by (induction xs rule: cancel_ids.induct) simp_all

lemma cancel_ids_cancel_requests:
  "cancel_ids (map (cancel_request now) es) = map (\<lambda>entry. Order.client_order_id (snd entry)) es"
  by (induction es) (simp_all add: cancel_request_def)

lemma count_list_distinct:
  "distinct xs \<Longrightarrow> count_list xs x = (if x \<in> set xs then 1 else 0)"
  by (induction xs) auto

lemma swept_cancel_ids:
  assumes now: "current_time s = Some now" and ok: "ledger_ok (active_orders s)"
    and sw: "cancel_old_orders s = Inr s'"
  shows "cancel_ids (sim s') =
         cancel_ids (sim s) @ map fst (takeWhile (expired now (order_lifetime s)) (active_orders s))"
proof -
  let ?swept = "takeWhile (expired now (order_lifetime s)) (active_orders s)"
  have "\<forall>entry \<in> set ?swept. Order.client_order_id (snd entry) = fst entry"
    using ok by (auto simp: ledger_ok_def list_all_iff dest: set_takeWhileD)
  then have "map (\<lambda>entry. Order.client_order_id (snd entry)) ?swept = map fst ?swept"
    by simp
  with sw cancel_old_orders_Some[OF now] show ?thesis
    by (auto simp: cancel_ids_append cancel_ids_cancel_requests)
qed

text \<open>
  C4, as the code has it: let an order with creation time \<open>T\<close> be registered under
  id \<open>k\<close> in a well-formed ledger (as the ledgers of a run are), and let a sweep run
  at time \<open>now\<close> with lifetime \<open>L\<close>. The sweep returns. When \<open>now \<le> T + L\<close> the order
  stays in the ledger and no cancel request for \<open>k\<close> is sent. When \<open>now > T + L\<close> and
  the ledger iterates in non-decreasing creation time, the order is removed and exactly
  one cancel request for \<open>k\<close> is sent. So an unfilled order is cancelled by the first
  sweep at which its age exceeds the lifetime, and not before.
\<close>

theorem C4_lifetime_sweep:
  assumes now: "current_time s = Some now"
    and ok: "ledger_ok (active_orders s)"
    and entry: "(k, order) \<in> set (active_orders s)"
  shows "\<exists>s'. cancel_old_orders s = Inr s'
     \<and> (now \<le> Order.client_ts order + order_lifetime s \<longrightarrow>
          (k, order) \<in> set (active_orders s')
          \<and> count_list (cancel_ids (sim s')) k = count_list (cancel_ids (sim s)) k)
     \<and> (now > Order.client_ts order + order_lifetime s
          \<and> creation_ordered (active_orders s) \<longrightarrow>
          k \<notin> fst ` set (active_orders s')
          \<and> count_list (cancel_ids (sim s')) k = count_list (cancel_ids (sim s)) k + 1)"
proof -
  let ?P = "expired now (order_lifetime s)"
  let ?d = "active_orders s"
  from cancel_old_orders_Some[OF now] obtain s' where sw: "cancel_old_orders s = Inr s'"
    and left: "active_orders s' = dropWhile ?P ?d"
    by simp
  have ids: "cancel_ids (sim s') = cancel_ids (sim s) @ map fst (takeWhile ?P ?d)"
    by (rule swept_cancel_ids[OF now ok sw])
  have dist: "distinct (map fst (takeWhile ?P ?d @ dropWhile ?P ?d))"
    using ok by (simp add: ledger_ok_def)
  have only: "order' = order" if "(k, order') \<in> set ?d" for order'
    using ok entry that by (auto simp: ledger_ok_def dest: eq_key_imp_eq_value)
  have young: "(k, order) \<in> set (active_orders s')
        \<and> count_list (cancel_ids (sim s')) k = count_list (cancel_ids (sim s)) k"
    if "now \<le> Order.client_ts order + order_lifetime s"
  proof -
    from that have np: "\<not> ?P (k, order)" by (simp add: expired_def)
    have "k \<notin> set (map fst (takeWhile ?P ?d))"
    proof
      assume "k \<in> set (map fst (takeWhile ?P ?d))"
      then obtain order' where in_tw: "(k, order') \<in> set (takeWhile ?P ?d)" by auto
      then have "(k, order') \<in> set ?d" "?P (k, order')" by (auto dest: set_takeWhileD)
      with only np show False by auto
    qed
    then have "count_list (map fst (takeWhile ?P ?d)) k = 0" by (rule count_notin)
    with ids left not_expired_survives[OF entry np] show ?thesis by simp
  qed
  have old: "k \<notin> fst ` set (active_orders s')
        \<and> count_list (cancel_ids (sim s')) k = count_list (cancel_ids (sim s)) k + 1"
    if "now > Order.client_ts order + order_lifetime s \<and> creation_ordered ?d"
  proof -
    from that have p: "?P (k, order)" and ord: "creation_ordered ?d"
      by (simp_all add: expired_def)
    from takeWhile_expired_filter[OF ord] entry p
    have in_tw: "(k, order) \<in> set (takeWhile ?P ?d)" by simp
    then have k_tw: "k \<in> set (map fst (takeWhile ?P ?d))" by force
    from dist have "distinct (map fst (takeWhile ?P ?d))"
      and disj: "set (map fst (takeWhile ?P ?d)) \<inter> set (map fst (dropWhile ?P ?d)) = {}"
      by (simp_all only: map_append distinct_append)
    with k_tw have "count_list (map fst (takeWhile ?P ?d)) k = 1"
      and "k \<notin> set (map fst (dropWhile ?P ?d))"
      by (auto simp: count_list_distinct)
    with ids left show ?thesis by simp
  qed
  from sw young old show ?thesis by blast
qed

text \<open>The theorem for order 1, created at time 20, on the sweeps at times 120 and 121.\<close>

theorem C4_witness:
  "current_time (holding 120) = Some 120
   \<and> ledger_ok (active_orders (holding 120))
   \<and> active_orders (holding 120) = [(1, candidate ''BID'' 0 1 100)]
   \<and> Order.client_ts (candidate ''BID'' 0 1 100) + order_lifetime (holding 120) = 120
   \<and> ledger_ids (cancel_old_orders (holding 120)) = Inr [1]
   \<and> cancels_sent (cancel_old_orders (holding 120)) = Inr []
   \<and> creation_ordered (active_orders (holding 121))
   \<and> ledger_ids (cancel_old_orders (holding 121)) = Inr []
   \<and> cancels_sent (cancel_old_orders (holding 121)) = Inr [1]"
  using C4_lifetime_sweep[of "holding 120" 120 1 "candidate ''BID'' 0 1 100"]
    C4_lifetime_sweep[of "holding 121" 121 1 "candidate ''BID'' 0 1 100"]
  by (simp add: holding_def ledger_ok_def creation_ordered_def ledger_ids_def
      cancels_sent_def candidate_def eval_defs)

text \<open>
  At \<open>now = T + L\<close> the sweep keeps the order: order 1 has creation time 20 and lifetime
  100, and the sweep at time 120 neither removes it nor sends a cancel request. And an
  expired order behind a younger one is not reached: order 7, created at time 0 and
  registered by a response after order 1 (created at time 1020), survives the sweep at
  time 1050.
\<close>

theorem C4_counterexample:
  "ledger_ids (run double_arith (init 10000 100) [(snapshot 0 100 101, 0), (heartbeat 120, 0)]) = Inr [1]
   \<and> cancels_sent (run double_arith (init 10000 100) [(snapshot 0 100 101, 0), (heartbeat 120, 0)]) = Inr []
   \<and> ledger_ids (run double_arith (init 10000 100)
        [(snapshot 1000 100 101, 0), (reply 1040 (candidate ''BID'' (-20) 7 99) 1030 OK, 0),
         (heartbeat 1050, 0)]) = Inr [1, 7]
   \<and> cancels_sent (run double_arith (init 10000 100)
        [(snapshot 1000 100 101, 0), (reply 1040 (candidate ''BID'' (-20) 7 99) 1030 OK, 0),
         (heartbeat 1050, 0)]) = Inr []"
  by (simp add: ledger_ids_def cancels_sent_def reply_def candidate_def eval_defs)

subsection \<open>Two ids for every snapshot\<close>

lemma step_other_frame:
  assumes st: "step fl draw s update = Inr s'"
    and other: "\<forall>md. update = MdUpdateU md \<longrightarrow> MdUpdate.orderbook md = None"
  shows "placed_orders (sim s') = placed_orders (sim s)"
    and "Strategy.client_order_id s' = Strategy.client_order_id s"
proof -
  have "placed_orders (sim s') = placed_orders (sim s)
      \<and> Strategy.client_order_id s' = Strategy.client_order_id s"
  proof (cases update)
    case (MdUpdateU md)
    with other have none: "MdUpdate.orderbook md = None" by simp
    from st MdUpdateU obtain s1 where s1: "on_md_update draw s md = Inr s1"
      and sw: "s' = s1 \<or> cancel_old_orders s1 = Inr s'"
      by (auto simp: step_def split: sum.splits if_splits)
    from s1 none have "sim s1 = sim s" "Strategy.client_order_id s1 = Strategy.client_order_id s"
      by (auto simp: on_md_update_def split: option.splits)
    with sw cancel_old_orders_frame(2,7)[of s1 s'] show ?thesis by auto
  next
    case (OwnTradeU own_trade)
    obtain s1 where s1: "on_own_trade fl s own_trade = Inr s1"
      and "Strategy.client_order_id s1 = Strategy.client_order_id s" and "sim s1 = sim s"
      by (rule on_own_trade_ok)
    moreover from st OwnTradeU s1 have "cancel_old_orders s1 = Inr s'" by (simp add: step_def)
    ultimately show ?thesis using cancel_old_orders_frame(2,7)[of s1 s'] by simp
  next
    case (ActionResponseU response)
    let ?s1 = "on_action_response s response"
    from st ActionResponseU have "cancel_old_orders ?s1 = Inr s'" by (simp add: step_def)
    moreover have "sim ?s1 = sim s" "Strategy.client_order_id ?s1 = Strategy.client_order_id s"
      by (simp_all add: on_action_response_def Let_def split: Action.splits)
    ultimately show ?thesis using cancel_old_orders_frame(2,7)[of ?s1 s'] by simp
  qed
  then show "placed_orders (sim s') = placed_orders (sim s)"
    and "Strategy.client_order_id s' = Strategy.client_order_id s" by simp_all
qed

lemma step_snapshot_order:
  assumes md: "MdUpdate.orderbook md = Some ob"
    and st: "step fl draw s (MdUpdateU md) = Inr s'"
  shows "Strategy.client_order_id s' = Strategy.client_order_id s + 2
     \<and> (\<exists>order. placed_orders (sim s') = placed_orders (sim s) @ [order]
          \<and> (Order.side order = ''BID''
                \<and> Order.client_order_id order = Strategy.client_order_id s
              \<or> Order.side order = ''ASK''
                \<and> Order.client_order_id order = Strategy.client_order_id s + 1))"
proof -
  from st md have "\<exists>s1. on_orderbook draw s ob = Inr s1"
    by (auto simp: step_def on_md_update_def split: sum.splits)
  then obtain bp bq bs ap aq as
    where b: "bids ob = (bp, bq) # bs" and a: "asks ob = (ap, aq) # as"
    by (auto elim: on_orderbook_Inr)
  let ?bid = "candidate ''BID'' (OrderbookSnapshotUpdate.receive_ts ob)
                (Strategy.client_order_id s) bp"
  let ?ask = "candidate ''ASK'' (OrderbookSnapshotUpdate.receive_ts ob)
                (Strategy.client_order_id s + 1) ap"
  from step_snapshot_placed[OF md b a, of fl draw s] st
  have cnt: "Strategy.client_order_id s' = Strategy.client_order_id s + 2"
    and pl: "placed_orders (sim s') =
         placed_orders (sim s) @ [if quoted_side draw s = ''BID'' then ?bid else ?ask]"
    by auto
  show ?thesis
  proof (cases "quoted_side draw s = ''BID''")
    case True
    with pl have "placed_orders (sim s') = placed_orders (sim s) @ [?bid]" by simp
    moreover have "Order.side ?bid = ''BID''"
      and "Order.client_order_id ?bid = Strategy.client_order_id s"
      by (simp_all add: candidate_def)
    ultimately show ?thesis using cnt by blast
  next
    case False
    with pl have "placed_orders (sim s') = placed_orders (sim s) @ [?ask]" by simp
    moreover have "Order.side ?ask = ''ASK''"
      and "Order.client_order_id ?ask = Strategy.client_order_id s + 1"
      by (simp_all add: candidate_def)
    ultimately show ?thesis using cnt by blast
  qed
qed

lemma step_new_ids:
  assumes "step fl draw s update = Inr s'"
  shows "Strategy.client_order_id s \<le> Strategy.client_order_id s'
     \<and> (\<exists>new. placed_ids s' = placed_ids s @ new \<and> sorted_wrt (<) new
          \<and> (\<forall>i \<in> set new. Strategy.client_order_id s \<le> i
                \<and> i < Strategy.client_order_id s'))"
proof (cases "\<exists>md ob. update = MdUpdateU md \<and> MdUpdate.orderbook md = Some ob")
  case True
  then obtain md ob where u: "update = MdUpdateU md" and md: "MdUpdate.orderbook md = Some ob"
    by blast
  from step_snapshot_order[OF md assms[unfolded u]] obtain order
    where cnt: "Strategy.client_order_id s' = Strategy.client_order_id s + 2"
      and pl: "placed_orders (sim s') = placed_orders (sim s) @ [order]"
      and oid: "Order.client_order_id order = Strategy.client_order_id s
                \<or> Order.client_order_id order = Strategy.client_order_id s + 1"
    by blast
  from pl have "placed_ids s' = placed_ids s @ [Order.client_order_id order]"
    by (simp add: placed_ids_def)
  with cnt oid show ?thesis
    by (intro conjI exI[of _ "[Order.client_order_id order]"]) auto
next
  case False
  then have "\<forall>md. update = MdUpdateU md \<longrightarrow> MdUpdate.orderbook md = None" by auto
  from step_other_frame[OF assms this] show ?thesis
    by (intro conjI exI[of _ "[]"]) (simp_all add: placed_ids_def)
qed

lemma run_new_ids:
  "run fl s ticks = Inr s' \<Longrightarrow>
   Strategy.client_order_id s \<le> Strategy.client_order_id s'
   \<and> (\<exists>new. placed_ids s' = placed_ids s @ new \<and> sorted_wrt (<) new
        \<and> (\<forall>i \<in> set new. Strategy.client_order_id s \<le> i
              \<and> i < Strategy.client_order_id s'))"
proof (induction ticks arbitrary: s)
  case Nil
  then show ?case by (intro conjI exI[of _ "[]"]) simp_all
next
  case (Cons tick ticks)
  obtain update draw where tick: "tick = (update, draw)" by (cases tick)
  with Cons.prems obtain s1 where s1: "step fl draw s update = Inr s1"
    and rest: "run fl s1 ticks = Inr s'"
    by (auto split: sum.splits)
  from step_new_ids[OF s1] obtain new1
    where le1: "Strategy.client_order_id s \<le> Strategy.client_order_id s1"
      and pl1: "placed_ids s1 = placed_ids s @ new1"
      and so1: "sorted_wrt (<) new1"
      and b1: "\<forall>i \<in> set new1. Strategy.client_order_id s \<le> i \<and> i < Strategy.client_order_id s1"
    by blast
  from Cons.IH[OF rest] obtain new2
    where le2: "Strategy.client_order_id s1 \<le> Strategy.client_order_id s'"
      and pl2: "placed_ids s' = placed_ids s1 @ new2"
      and so2: "sorted_wrt (<) new2"
      and b2: "\<forall>i \<in> set new2. Strategy.client_order_id s1 \<le> i \<and> i < Strategy.client_order_id s'"
    by blast
  from so1 so2 b1 b2 have "sorted_wrt (<) (new1 @ new2)"
    by (fastforce simp: sorted_wrt_append)
  moreover from pl1 pl2 have "placed_ids s' = placed_ids s @ (new1 @ new2)" by simp
  moreover from le1 le2 b1 b2
  have "\<forall>i \<in> set (new1 @ new2). Strategy.client_order_id s \<le> i \<and> i < Strategy.client_order_id s'"
    by fastforce
  ultimately show ?case using le1 le2 by (intro conjI exI[of _ "new1 @ new2"]) simp_all
qed

text \<open>
  C10, as the code has it: in a run of a fresh strategy, every processed order-book
  snapshot advances the id counter by exactly 2, the two calls of the id generator, and
  places exactly one order. A BID order carries the first of the two ids and the second
  id is attached to no order placed in the run; an ASK order carries the second id and
  the first id is attached to no order placed in the run. The ids of the orders placed
  in the run are strictly increasing.
\<close>

theorem C10_two_ids_per_snapshot:
  assumes before: "run fl (init max_pos lifetime) before = Inr s"
    and md: "MdUpdate.orderbook md = Some ob"
    and st: "step fl draw s (MdUpdateU md) = Inr s1"
    and after: "run fl s1 after = Inr s2"
  shows "Strategy.client_order_id s1 = Strategy.client_order_id s + 2
     \<and> (\<exists>order. placed_orders (sim s1) = placed_orders (sim s) @ [order]
          \<and> (Order.side order = ''BID''
                \<and> Order.client_order_id order = Strategy.client_order_id s
                \<and> Strategy.client_order_id s + 1 \<notin> set (placed_ids s2)
              \<or> Order.side order = ''ASK''
                \<and> Order.client_order_id order = Strategy.client_order_id s + 1
                \<and> Strategy.client_order_id s \<notin> set (placed_ids s2)))
     \<and> sorted_wrt (<) (placed_ids s2)"
proof -
  let ?c = "Strategy.client_order_id s"
  from step_snapshot_order[OF md st] obtain order
    where cnt: "Strategy.client_order_id s1 = ?c + 2"
      and pl: "placed_orders (sim s1) = placed_orders (sim s) @ [order]"
      and side: "Order.side order = ''BID'' \<and> Order.client_order_id order = ?c
               \<or> Order.side order = ''ASK'' \<and> Order.client_order_id order = ?c + 1"
    by blast
  from pl have ids1: "placed_ids s1 = placed_ids s @ [Order.client_order_id order]"
    by (simp add: placed_ids_def)
  from run_new_ids[OF before] have old: "\<forall>i \<in> set (placed_ids s). i < ?c"
    and so0: "sorted_wrt (<) (placed_ids s)"
    by (auto simp: init_def placed_ids_def)
  from run_new_ids[OF after] cnt obtain new
    where ids2: "placed_ids s2 = placed_ids s1 @ new"
      and so2: "sorted_wrt (<) new"
      and new: "\<forall>i \<in> set new. ?c + 2 \<le> i"
    by auto
  from side have range: "?c \<le> Order.client_order_id order"
    "Order.client_order_id order < ?c + 2" by auto
  have all: "placed_ids s2 = placed_ids s @ [Order.client_order_id order] @ new"
    using ids1 ids2 by simp
  have sorted: "sorted_wrt (<) (placed_ids s2)"
    unfolding all using so0 so2 old new range by (fastforce simp: sorted_wrt_append)
  have other: "u \<notin> set (placed_ids s2)"
    if "u = ?c \<or> u = ?c + 1" and "u \<noteq> Order.client_order_id order" for u
    unfolding all using that old new by fastforce
  from side show ?thesis
  proof
    assume bid: "Order.side order = ''BID'' \<and> Order.client_order_id order = ?c"
    then have "?c + 1 \<notin> set (placed_ids s2)" using other[of "?c + 1"] by simp
    with cnt pl bid sorted show ?thesis by blast
  next
    assume ask: "Order.side order = ''ASK'' \<and> Order.client_order_id order = ?c + 1"
    then have "?c \<notin> set (placed_ids s2)" using other[of ?c] by simp
    with cnt pl ask sorted show ?thesis by blast
  qed
qed

text \<open>
  The ids of successively placed orders can be consecutive: an ASK candidate, id 2, is
  followed by the BID candidate of the next snapshot, id 3.
\<close>

theorem C10_counterexample:
  "orders_placed (run double_arith (init 10000 100)
      [(snapshot 0 100 101, 1), (snapshot 10 100 101, 0)])
     = Inr [candidate ''ASK'' 0 2 101, candidate ''BID'' 10 3 100]
   \<and> ids_placed (run double_arith (init 10000 100)
      [(snapshot 0 100 101, 1), (snapshot 10 100 101, 0)])
     = Inr [2, 2 + 1]"
  by (simp add: orders_placed_def ids_placed_def placed_ids_def candidate_def eval_defs)

text \<open>
  The theorem on the second of three snapshots: ids 3 and 4 are taken, the ASK order 4
  is placed, and 3 is never placed.
\<close>

theorem C10_witness:
  "Strategy.client_order_id
     (projr (run double_arith (init 10000 100) [(snapshot 0 100 101, 1)])) = 3
   \<and> orders_placed (run double_arith (init 10000 100) [(snapshot 0 100 101, 1)])
      = Inr [candidate ''ASK'' 0 2 101]
   \<and> Strategy.client_order_id
        (projr (run double_arith (init 10000 100)
           [(snapshot 0 100 101, 1), (snapshot 10 100 101, 1)])) = 5
   \<and> orders_placed (run double_arith (init 10000 100)
        [(snapshot 0 100 101, 1), (snapshot 10 100 101, 1)])
      = Inr [candidate ''ASK'' 0 2 101, candidate ''ASK'' 10 4 101]
   \<and> ids_placed (run double_arith (init 10000 100)
        [(snapshot 0 100 101, 1), (snapshot 10 100 101, 1), (snapshot 20 100 101, 0)])
      = Inr [2, 4, 5]"
  using C10_two_ids_per_snapshot[where fl = double_arith and max_pos = 10000
      and lifetime = 100 and before = "[(snapshot 0 100 101, 1)]"
      and s = "projr (run double_arith (init 10000 100) [(snapshot 0 100 101, 1)])"
      and md = "\<lparr>MdUpdate.receive_ts = 10,
        orderbook = Some \<lparr>OrderbookSnapshotUpdate.receive_ts = 10,
                          bids = [(100, 1)], asks = [(101, 1)]\<rparr>,
        trade = None\<rparr>"
      and ob = "\<lparr>OrderbookSnapshotUpdate.receive_ts = 10,
        bids = [(100, 1)], asks = [(101, 1)]\<rparr>"
      and draw = 1
      and ?s1.0 = "projr (run double_arith (init 10000 100)
        [(snapshot 0 100 101, 1), (snapshot 10 100 101, 1)])"
      and after = "[(snapshot 20 100 101, 0)]"
      and ?s2.0 = "projr (run double_arith (init 10000 100)
        [(snapshot 0 100 101, 1), (snapshot 10 100 101, 1), (snapshot 20 100 101, 0)])"]
  by (simp add: orders_placed_def ids_placed_def placed_ids_def candidate_def eval_defs)

end
